theory Spec2Isabelle
  imports Main "HOL-Library.Multiset" "HOL-Library.Sublist"
begin

section \<open>Knowledge graph store\<close>

text \<open>
  The build keeps its entities and relationships in a \<^verbatim>\<open>networkx.MultiDiGraph\<close>.
  Only the operations that \<^verbatim>\<open>graph_builder.py\<close> and \<^verbatim>\<open>query_engine.py\<close> call are
  modelled: \<^verbatim>\<open>add_node\<close>, \<^verbatim>\<open>has_node\<close>, \<^verbatim>\<open>add_edge\<close>, \<^verbatim>\<open>nodes\<close>, \<^verbatim>\<open>neighbors\<close>,
  \<^verbatim>\<open>number_of_nodes\<close> and \<^verbatim>\<open>set_node_attributes\<close>.  Nodes and edges are lists in
  insertion order, the order in which the library's dictionaries iterate.

  A node's attribute dictionary holds at most the four keys the program ever
  writes; an absent key is \<open>None\<close>.
\<close>

type_synonym node_id = string

record node_data =
  ntype :: "string option"
  nvalue :: "string option"
  source_file :: "string option"
  community_id :: "nat option"

record graph =
  nodes :: "(node_id \<times> node_data) list"
  edges :: "(node_id \<times> node_id \<times> string) list"

definition no_attrs :: node_data where
  "no_attrs = \<lparr>ntype = None, nvalue = None, source_file = None, community_id = None\<rparr>"

definition MultiDiGraph :: graph where
  "MultiDiGraph = \<lparr>nodes = [], edges = []\<rparr>"

definition has_node :: "graph \<Rightarrow> node_id \<Rightarrow> bool" where
  "has_node G n = (n \<in> set (map fst (nodes G)))"

definition number_of_nodes :: "graph \<Rightarrow> nat" where
  "number_of_nodes G = length (nodes G)"

definition number_of_edges :: "graph \<Rightarrow> nat" where
  "number_of_edges G = length (edges G)"

text \<open>
  \<^verbatim>\<open>G.add_node(n, type=.., value=.., source_file=..)\<close>: a new node is appended with
  the given attributes; for a node that is already present the library updates
  its attribute dictionary with the keyword arguments, in place.
\<close>

definition set_entity_attrs :: "string \<Rightarrow> string \<Rightarrow> string \<Rightarrow> node_data \<Rightarrow> node_data" where
  "set_entity_attrs ty v sf d = d\<lparr>ntype := Some ty, nvalue := Some v, source_file := Some sf\<rparr>"

definition update_node ::
  "node_id \<Rightarrow> (node_data \<Rightarrow> node_data) \<Rightarrow> (node_id \<times> node_data) list \<Rightarrow> (node_id \<times> node_data) list" where
  "update_node n g xs = map (\<lambda>(k, d). if k = n then (k, g d) else (k, d)) xs"

definition add_node :: "node_id \<Rightarrow> string \<Rightarrow> string \<Rightarrow> string \<Rightarrow> graph \<Rightarrow> graph" where
  "add_node n ty v sf G =
     (if has_node G n
      then G\<lparr>nodes := update_node n (set_entity_attrs ty v sf) (nodes G)\<rparr>
      else G\<lparr>nodes := nodes G @ [(n, set_entity_attrs ty v sf no_attrs)]\<rparr>)"

text \<open>
  \<^verbatim>\<open>G.add_edge(u, v, type=..)\<close>: the library creates an endpoint that is not in
  the graph yet, with an empty attribute dictionary, and appends the edge.
\<close>

definition ensure_node :: "node_id \<Rightarrow> graph \<Rightarrow> graph" where
  "ensure_node n G = (if has_node G n then G else G\<lparr>nodes := nodes G @ [(n, no_attrs)]\<rparr>)"

definition add_edge :: "node_id \<Rightarrow> node_id \<Rightarrow> string \<Rightarrow> graph \<Rightarrow> graph" where
  "add_edge u v ty G =
     (let G' = ensure_node v (ensure_node u G) in G'\<lparr>edges := edges G' @ [(u, v, ty)]\<rparr>)"

section \<open>Step 1 of the build: the initial graph\<close>

text \<open>Exceptions of the program that no handler of its own catches.\<close>

datatype error = KeyError string | IndexError | TypeError | RuntimeError

text \<open>
  \<^verbatim>\<open>extract_entities_from_review\<close> asks the language model and parses its answer
  with \<^verbatim>\<open>json.loads\<close>; it returns the parsed object, or \<^verbatim>\<open>None\<close> on any failure.
  It is a parameter \<open>extractor\<close> of the build here.  A missing \<^verbatim>\<open>"entities"\<close> or
  \<^verbatim>\<open>"relationships"\<close> key reads as the empty list, and the empty object is
  skipped by \<^verbatim>\<open>if extracted_data:\<close> with the same effect as two empty lists.

  Nothing checks the shape of the parsed answer.  An item of either list is a
  JSON object, given by its keys and values, or any other JSON value; the value
  of a key is a string.  Subscripting an object with a key it lacks raises
  \<^verbatim>\<open>KeyError\<close>, subscripting any other value with a key raises \<^verbatim>\<open>TypeError\<close>.
  Lists that are no lists and values that are no strings are not modelled.
\<close>

type_synonym json_object = "(string \<times> string) list"

datatype json_item = JObject json_object | JOther

record extraction =
  entities :: "json_item list"
  relationships :: "json_item list"

type_synonym extractor = "string \<Rightarrow> extraction option"

definition subscript :: "json_item \<Rightarrow> string \<Rightarrow> error + string" where
  "subscript item key =
     (case item of
        JOther \<Rightarrow> Inl TypeError
      | JObject obj \<Rightarrow> (case map_of obj key of None \<Rightarrow> Inl (KeyError key) | Some v \<Rightarrow> Inr v))"

text \<open>A loop whose body may raise stops at the first error, with the exception.\<close>

fun fold_result :: "('a \<Rightarrow> 's \<Rightarrow> error + 's) \<Rightarrow> 'a list \<Rightarrow> 's \<Rightarrow> error + 's" where
  "fold_result f [] s = Inr s"
| "fold_result f (x # xs) s = (case f x s of Inl e \<Rightarrow> Inl e | Inr s' \<Rightarrow> fold_result f xs s')"

text \<open>
  \<^verbatim>\<open>G.add_node(entity["id"], type=entity["type"], value=entity["value"],
  source_file=filename)\<close>: the arguments are evaluated from left to right.
\<close>

definition add_entity :: "string \<Rightarrow> json_item \<Rightarrow> graph \<Rightarrow> error + graph" where
  "add_entity filename entity G =
     (case subscript entity ''id'' of
        Inl e \<Rightarrow> Inl e
      | Inr i \<Rightarrow>
          (case subscript entity ''type'' of
             Inl e \<Rightarrow> Inl e
           | Inr ty \<Rightarrow>
               (case subscript entity ''value'' of
                  Inl e \<Rightarrow> Inl e
                | Inr v \<Rightarrow> Inr (add_node i ty v filename G))))"

text \<open>
  \<^verbatim>\<open>if G.has_node(rel["source"]) and G.has_node(rel["target"]):\<close> reads the
  target only when the source is a node, and \<^verbatim>\<open>G.add_edge(rel["source"],
  rel["target"], type=rel["type"])\<close> reads the type only when both are.
\<close>

definition add_relationship :: "json_item \<Rightarrow> graph \<Rightarrow> error + graph" where
  "add_relationship rel G =
     (case subscript rel ''source'' of
        Inl e \<Rightarrow> Inl e
      | Inr s \<Rightarrow>
          if \<not> has_node G s then Inr G
          else
            (case subscript rel ''target'' of
               Inl e \<Rightarrow> Inl e
             | Inr t \<Rightarrow>
                 if \<not> has_node G t then Inr G
                 else
                   (case subscript rel ''type'' of
                      Inl e \<Rightarrow> Inl e
                    | Inr ty \<Rightarrow> Inr (add_edge s t ty G))))"

definition process_review :: "extractor \<Rightarrow> string \<times> string \<Rightarrow> graph \<Rightarrow> error + graph" where
  "process_review extractor file G =
     (case extractor (snd file) of
        None \<Rightarrow> Inr G
      | Some ex \<Rightarrow>
          (case fold_result (add_entity (fst file)) (entities ex) G of
             Inl e \<Rightarrow> Inl e
           | Inr G' \<Rightarrow> fold_result add_relationship (relationships ex) G'))"

definition endswith :: "string \<Rightarrow> string \<Rightarrow> bool" where
  "endswith s ending =
     (length ending \<le> length s \<and> drop (length s - length ending) s = ending)"

text \<open>
  A reviews directory is the list of its entries, name and content, in the
  order \<^verbatim>\<open>os.listdir\<close> gives them.
\<close>

type_synonym directory = "(string \<times> string) list"

definition review_files :: "directory \<Rightarrow> directory" where
  "review_files reviews_dir = filter (\<lambda>f. endswith (fst f) ''.txt'') reviews_dir"

definition build_initial_graph :: "extractor \<Rightarrow> directory \<Rightarrow> error + graph" where
  "build_initial_graph extractor reviews_dir =
     fold_result (process_review extractor) (review_files reviews_dir) MultiDiGraph"

definition node_attrs :: "graph \<Rightarrow> node_id \<Rightarrow> node_data option" where
  "node_attrs G n = map_of (nodes G) n"

section \<open>Step 2 of the build: community detection\<close>

text \<open>
  Modelled from the spec: the undirected projection (\<^verbatim>\<open>G.to_undirected()\<close>) and the
  partition (\<^verbatim>\<open>greedy_modularity_communities\<close>) are computed by the graph library,
  whose code is not among the sources.  The spec describes them: the projection
  forgets edge direction and labels and collapses parallel edges; the detector
  starts from one community per node and repeatedly merges the pair of
  communities with the largest modularity increase, until no merge improves
  modularity.  Ties go to the first pair in list order.

  With \<open>m\<close> undirected edges, \<open>E\<close> edges between the communities \<open>A\<close> and \<open>B\<close>
  and \<open>d\<close> the sum of the degrees in a community, merging \<open>A\<close> and \<open>B\<close> changes
  the modularity by \<open>(2 m E - d\<^sub>A d\<^sub>B) / (2 m\<^sup>2)\<close>.  The model compares the
  integer numerators, which have the sign and the order of the quotients.
\<close>

type_synonym community = "node_id list"

record ugraph =
  unodes :: "node_id list"
  ulinks :: "(node_id \<times> node_id) list"

definition to_undirected :: "graph \<Rightarrow> ugraph" where
  "to_undirected G =
     \<lparr>unodes = map fst (nodes G), ulinks = map (\<lambda>e. (fst e, fst (snd e))) (edges G)\<rparr>"

definition adjacent :: "ugraph \<Rightarrow> node_id \<Rightarrow> node_id \<Rightarrow> bool" where
  "adjacent U u v = ((u, v) \<in> set (ulinks U) \<or> (v, u) \<in> set (ulinks U))"

definition degree :: "ugraph \<Rightarrow> node_id \<Rightarrow> nat" where
  "degree U u =
     length (filter (\<lambda>v. v \<noteq> u \<and> adjacent U u v) (unodes U)) + (if adjacent U u u then 2 else 0)"

definition community_degree :: "ugraph \<Rightarrow> community \<Rightarrow> nat" where
  "community_degree U A = sum_list (map (degree U) A)"

definition links_between :: "ugraph \<Rightarrow> community \<Rightarrow> community \<Rightarrow> nat" where
  "links_between U A B = sum_list (map (\<lambda>a. length (filter (adjacent U a) B)) A)"

definition total_degree :: "ugraph \<Rightarrow> nat" where
  "total_degree U = sum_list (map (degree U) (unodes U))"

definition modularity_gain :: "ugraph \<Rightarrow> community \<Rightarrow> community \<Rightarrow> int" where
  "modularity_gain U A B =
     int (total_degree U) * int (links_between U A B)
       - int (community_degree U A) * int (community_degree U B)"

fun pairs :: "'a list \<Rightarrow> ('a \<times> 'a) list" where
  "pairs [] = []"
| "pairs (x # xs) = map (Pair x) xs @ pairs xs"

fun best_pair :: "ugraph \<Rightarrow> (community \<times> community) list \<Rightarrow> (community \<times> community) option" where
  "best_pair U [] = None"
| "best_pair U (p # ps) =
     (case best_pair U ps of
        None \<Rightarrow> Some p
      | Some q \<Rightarrow>
          if modularity_gain U (fst p) (snd p) < modularity_gain U (fst q) (snd q)
          then Some q else Some p)"

definition improving_merge :: "ugraph \<Rightarrow> community list \<Rightarrow> (community \<times> community) option" where
  "improving_merge U cs =
     (case best_pair U (pairs cs) of
        None \<Rightarrow> None
      | Some p \<Rightarrow> if 0 < modularity_gain U (fst p) (snd p) then Some p else None)"

definition merge_communities :: "community \<Rightarrow> community \<Rightarrow> community list \<Rightarrow> community list" where
  "merge_communities A B cs = (A @ B) # remove1 A (remove1 B cs)"

lemma pairs_mset: "(A, B) \<in> set (pairs cs) \<Longrightarrow> {#A, B#} \<subseteq># mset cs"
proof (induction cs)
  case Nil
  then show ?case by simp
next
  case (Cons c cs)
  from Cons.prems have "(A = c \<and> B \<in> set cs) \<or> (A, B) \<in> set (pairs cs)"
    by auto
  then show ?case
  proof
    assume h: "A = c \<and> B \<in> set cs"
    then have "{#B#} \<subseteq># mset cs" by simp
    then have "{#c#} + {#B#} \<subseteq># {#c#} + mset cs"
      by (simp only: subset_mset.add_le_cancel_left)
    with h show ?thesis by simp
  next
    assume "(A, B) \<in> set (pairs cs)"
    then have "{#A, B#} \<subseteq># mset cs" by (rule Cons.IH)
    also have "mset cs \<subseteq># mset (c # cs)" by simp
    finally show ?thesis .
  qed
qed

lemma best_pair_member: "best_pair U ps = Some p \<Longrightarrow> p \<in> set ps"
  by (induction ps arbitrary: p) (auto split: option.splits if_splits)

lemma improving_merge_pair:
  "improving_merge U cs = Some (A, B) \<Longrightarrow> (A, B) \<in> set (pairs cs) \<and> 0 < modularity_gain U A B"
  by (auto simp: improving_merge_def split: option.splits if_splits dest: best_pair_member)

lemma mset_merge_communities:
  assumes "(A, B) \<in> set (pairs cs)"
  shows "mset (merge_communities A B cs) = mset cs - {#A, B#} + {#A @ B#}"
proof -
  have "mset (remove1 A (remove1 B cs)) = mset cs - {#B#} - {#A#}"
    by simp
  also have "\<dots> = mset cs - {#A, B#}"
    by simp
  finally show ?thesis
    by (simp add: merge_communities_def)
qed

lemma length_merge_communities:
  assumes "(A, B) \<in> set (pairs cs)"
  shows "Suc (length (merge_communities A B cs)) = length cs"
proof -
  have sub: "{#A, B#} \<subseteq># mset cs"
    using assms by (rule pairs_mset)
  have "size (mset (merge_communities A B cs)) = size (mset cs - {#A, B#}) + 1"
    by (simp add: mset_merge_communities [OF assms])
  also have "size (mset cs - {#A, B#}) = size (mset cs) - size {#A, B#}"
    using sub by (rule size_Diff_submset)
  finally have "length (merge_communities A B cs) = length cs - 2 + 1"
    by simp
  moreover have "2 \<le> length cs"
    using size_mset_mono [OF sub] by simp
  ultimately show ?thesis by simp
qed

function greedy_merge :: "ugraph \<Rightarrow> community list \<Rightarrow> community list" where
  "greedy_merge U cs =
     (case improving_merge U cs of
        None \<Rightarrow> cs
      | Some p \<Rightarrow> greedy_merge U (merge_communities (fst p) (snd p) cs))"
  by pat_completeness auto

termination
proof (relation "measure (\<lambda>(U, cs). length cs)")
  show "wf (measure (\<lambda>(U, cs). length cs))" by simp
next
  fix U :: ugraph and cs :: "community list" and p
  assume "improving_merge U cs = Some p"
  then have "(fst p, snd p) \<in> set (pairs cs)"
    using improving_merge_pair [of U cs "fst p" "snd p"] by simp
  then have "Suc (length (merge_communities (fst p) (snd p) cs)) = length cs"
    by (rule length_merge_communities)
  then show "((U, merge_communities (fst p) (snd p) cs), (U, cs)) \<in> measure (\<lambda>(U, cs). length cs)"
    by simp
qed

declare greedy_merge.simps [simp del]

definition greedy_modularity_communities :: "ugraph \<Rightarrow> community list" where
  "greedy_modularity_communities U = greedy_merge U (map (\<lambda>n. [n]) (unodes U))"

text \<open>
  \<^verbatim>\<open>detect_and_store_communities\<close>, from the source: the dictionary comprehension
  maps every member of community \<open>i\<close> to \<open>i\<close> (a later entry for the same node
  would replace an earlier one), and \<^verbatim>\<open>set_node_attributes\<close> writes the entry of
  each node that has one.
\<close>

definition community_map :: "community list \<Rightarrow> node_id \<rightharpoonup> nat" where
  "community_map communities =
     map_of (rev (concat (map (\<lambda>(i, c). map (\<lambda>n. (n, i)) c) (enumerate 0 communities))))"

definition set_community_ids :: "graph \<Rightarrow> (node_id \<rightharpoonup> nat) \<Rightarrow> graph" where
  "set_community_ids G m =
     G\<lparr>nodes := map (\<lambda>(k, d). case m k of None \<Rightarrow> (k, d) | Some i \<Rightarrow> (k, d\<lparr>community_id := Some i\<rparr>))
                   (nodes G)\<rparr>"

definition detect_and_store_communities :: "graph \<Rightarrow> graph \<times> community list" where
  "detect_and_store_communities G =
     (let communities = greedy_modularity_communities (to_undirected G)
      in (set_community_ids G (community_map communities), communities))"

section \<open>Python values and strings\<close>

definition squote :: string where
  "squote = [CHR 0x27]"

definition dquote :: string where
  "dquote = [CHR 0x22]"

definition py_str :: "string option \<Rightarrow> string" where
  "py_str v = (case v of None \<Rightarrow> ''None'' | Some s \<Rightarrow> s)"

fun join :: "string \<Rightarrow> string list \<Rightarrow> string" where
  "join sep [] = []"
| "join sep [x] = x"
| "join sep (x # y # ys) = x @ sep @ join sep (y # ys)"

function str_nat :: "nat \<Rightarrow> string" where
  "str_nat n =
     (if n < 10 then [''0123456789'' ! n]
      else str_nat (n div 10) @ [''0123456789'' ! (n mod 10)])"
  by pat_completeness auto

termination
  by (relation "measure (\<lambda>n. n)") auto

declare str_nat.simps [simp del]

text \<open>\<^verbatim>\<open>str.strip()\<close>, on the ASCII whitespace characters.\<close>

definition is_space :: "char \<Rightarrow> bool" where
  "is_space c = (c \<in> set [CHR 0x09, CHR 0x0A, CHR 0x0B, CHR 0x0C, CHR 0x0D,
                           CHR 0x1C, CHR 0x1D, CHR 0x1E, CHR 0x1F, CHR 0x20])"

definition strip :: "string \<Rightarrow> string" where
  "strip s = rev (dropWhile is_space (rev (dropWhile is_space s)))"

text \<open>
  Python indexing of a list by an integer: negative indices count from the
  end, anything outside raises \<^verbatim>\<open>IndexError\<close>.
\<close>

definition py_getitem :: "'a list \<Rightarrow> int \<Rightarrow> error + 'a" where
  "py_getitem xs i =
     (if 0 \<le> i \<and> i < int (length xs) then Inr (xs ! nat i)
      else if i < 0 \<and> - int (length xs) \<le> i then Inr (xs ! nat (int (length xs) + i))
      else Inl IndexError)"

text \<open>A list comprehension or loop whose body may raise stops at the first error.\<close>

fun map_result :: "('a \<Rightarrow> error + 'b) \<Rightarrow> 'a list \<Rightarrow> error + 'b list" where
  "map_result f [] = Inr []"
| "map_result f (x # xs) =
     (case f x of
        Inl e \<Rightarrow> Inl e
      | Inr y \<Rightarrow> (case map_result f xs of Inl e \<Rightarrow> Inl e | Inr ys \<Rightarrow> Inr (y # ys)))"

text \<open>The keys of a dictionary filled in this order: first occurrences, in order.\<close>

definition ordered_keys :: "'a list \<Rightarrow> 'a list" where
  "ordered_keys xs = fold (\<lambda>x acc. if x \<in> set acc then acc else acc @ [x]) xs []"

text \<open>\<^verbatim>\<open>G.nodes[n]\<close> raises \<^verbatim>\<open>KeyError\<close> for a node that is not in the graph.\<close>

definition node_lookup :: "graph \<Rightarrow> node_id \<Rightarrow> error + node_data" where
  "node_lookup G n = (case node_attrs G n of None \<Rightarrow> Inl (KeyError n) | Some d \<Rightarrow> Inr d)"

section \<open>Step 3 of the build: community summaries\<close>

text \<open>
  The generation backend is a parameter: it answers a prompt with a text
  (\<open>Inr\<close>) or raises, with a message (\<open>Inl\<close>).
\<close>

type_synonym llm = "string \<Rightarrow> string + string"

definition entity_line :: "node_data \<Rightarrow> string" where
  "entity_line d = ''- Entity: '' @ py_str (nvalue d) @ '' (Type: '' @ py_str (ntype d) @ '')''"

definition summary_prompt :: "string \<Rightarrow> string" where
  "summary_prompt context_str =
     ''\<newline>'' @
     ''        The following is a list of entities and concepts belonging to a single community detected within a knowledge graph of app reviews.\<newline>'' @
     ''        Summarize the main theme or topic of this community in a single, concise sentence.\<newline>'' @
     ''\<newline>'' @
     ''        Entities:\<newline>'' @
     ''        '' @ context_str @ ''\<newline>'' @
     ''\<newline>'' @
     ''        Summary:\<newline>'' @
     ''        ''"

definition summarize_community :: "llm \<Rightarrow> graph \<Rightarrow> community \<Rightarrow> error + string" where
  "summarize_community llm_model G community_nodes =
     (case map_result (node_lookup G) community_nodes of
        Inl e \<Rightarrow> Inl e
      | Inr community_data \<Rightarrow>
          Inr (case llm_model (summary_prompt (join ''\<newline>'' (map entity_line community_data))) of
                 Inl e \<Rightarrow> ''Summary generation failed.''
               | Inr text \<Rightarrow> strip text))"

definition generate_community_summaries ::
  "llm \<Rightarrow> graph \<Rightarrow> community list \<Rightarrow> error + (nat \<times> string) list" where
  "generate_community_summaries llm_model G communities =
     (case map_result (summarize_community llm_model G) communities of
        Inl e \<Rightarrow> Inl e
      | Inr texts \<Rightarrow> Inr (enumerate 0 texts))"

section \<open>Step 4 of the build: the entity embedding index\<close>

text \<open>
  The embedding backend is a parameter: for a batch of texts it returns a list
  of vectors or raises.  The scalars of a vector are kept abstract.  The flat
  index stores the rows it was given, in order; building the array and the
  index raises unless there is at least one row and all rows have one length.
\<close>

type_synonym 'a embedder = "string list \<Rightarrow> string + 'a list list"

record 'a faiss_index =
  dimension :: nat
  vectors :: "'a list list"

definition IndexFlatL2 :: "'a list list \<Rightarrow> 'a faiss_index option" where
  "IndexFlatL2 embeddings =
     (case embeddings of
        [] \<Rightarrow> None
      | row # _ \<Rightarrow>
          if \<forall>r \<in> set embeddings. length r = length row
          then Some \<lparr>dimension = length row, vectors = embeddings\<rparr>
          else None)"

definition valued_nodes :: "graph \<Rightarrow> (node_id \<times> string) list" where
  "valued_nodes G = List.map_filter (\<lambda>(n, d). map_option (Pair n) (nvalue d)) (nodes G)"

definition create_entity_embeddings_index ::
  "'a embedder \<Rightarrow> graph \<Rightarrow> ('a faiss_index \<times> node_id list) option" where
  "create_entity_embeddings_index embed_content G =
     (let node_ids = map fst (valued_nodes G);
          node_values = map snd (valued_nodes G)
      in if node_values = [] then None
         else case embed_content node_values of
                Inl e \<Rightarrow> None
              | Inr embeddings \<Rightarrow>
                  (case IndexFlatL2 embeddings of
                     None \<Rightarrow> None
                   | Some index \<Rightarrow> Some (index, node_ids)))"

section \<open>Step 5 of the build: the persisted artifacts\<close>

text \<open>
  The four files of the index directory.  \<^verbatim>\<open>json.dump\<close> writes the integer keys
  of the summaries as decimal strings.  The build returns \<^verbatim>\<open>False\<close> (\<open>Inr None\<close>)
  without writing anything, returns \<^verbatim>\<open>True\<close> after writing all four files, or
  lets an exception escape (\<open>Inl\<close>): the loop of step 1 reads the parsed answers
  outside any handler.  Errors of the file system are not modelled.
\<close>

record 'a artifacts =
  graph_pkl :: graph
  community_summaries_json :: "(string \<times> string) list"
  entity_embeddings_faiss :: "'a faiss_index"
  faiss_node_ids_json :: "node_id list"

definition json_dump_summaries :: "(nat \<times> string) list \<Rightarrow> (string \<times> string) list" where
  "json_dump_summaries summaries = map (\<lambda>(i, text). (str_nat i, text)) summaries"

definition build_knowledge_graph ::
  "extractor \<Rightarrow> llm \<Rightarrow> 'a embedder \<Rightarrow> directory \<Rightarrow> error + 'a artifacts option" where
  "build_knowledge_graph extractor llm_model embed_content reviews_dir =
     (case build_initial_graph extractor reviews_dir of
        Inl e \<Rightarrow> Inl e
      | Inr G0 \<Rightarrow>
          if number_of_nodes G0 = 0 then Inr None
          else
            let (G, communities) = detect_and_store_communities G0
            in case generate_community_summaries llm_model G communities of
                 Inl e \<Rightarrow> Inl e
               | Inr community_summaries \<Rightarrow>
                   (case create_entity_embeddings_index embed_content G of
                      None \<Rightarrow> Inr None
                    | Some (faiss_index, faiss_node_ids) \<Rightarrow>
                        Inr (Some \<lparr>graph_pkl = G,
                                   community_summaries_json = json_dump_summaries community_summaries,
                                   entity_embeddings_faiss = faiss_index,
                                   faiss_node_ids_json = faiss_node_ids\<rparr>)))"

text \<open>
  The index directory as the query path finds it: each of the four files is
  there or not.  \<open>saved\<close> is the directory after a successful build.
\<close>

record 'a index_directory =
  graph_pkl_file :: "graph option"
  community_summaries_file :: "(string \<times> string) list option"
  entity_embeddings_file :: "'a faiss_index option"
  faiss_node_ids_file :: "node_id list option"

definition saved :: "'a artifacts \<Rightarrow> 'a index_directory" where
  "saved files =
     \<lparr>graph_pkl_file = Some (graph_pkl files),
      community_summaries_file = Some (community_summaries_json files),
      entity_embeddings_file = Some (entity_embeddings_faiss files),
      faiss_node_ids_file = Some (faiss_node_ids_json files)\<rparr>"

section \<open>Query time: local search\<close>

text \<open>
  \<^verbatim>\<open>G.neighbors(n)\<close> on a directed multigraph iterates over the successors of
  \<open>n\<close>: the targets of the edges that leave \<open>n\<close>, each once.
\<close>

definition neighbors :: "graph \<Rightarrow> node_id \<Rightarrow> node_id list" where
  "neighbors G n = ordered_keys (map (\<lambda>e. fst (snd e)) (filter (\<lambda>e. fst e = n) (edges G)))"

definition neighbor_line :: "node_data \<Rightarrow> string" where
  "neighbor_line d =
     ''  - '' @ squote @ py_str (nvalue d) @ squote @ '' (Type: '' @ py_str (ntype d) @ '')''"

definition local_fragment :: "graph \<Rightarrow> node_id \<Rightarrow> node_data \<Rightarrow> error + string" where
  "local_fragment G node_id node_data =
     (let local_info = ''Entity '' @ squote @ py_str (nvalue node_data) @ squote
                         @ '' (Type: '' @ py_str (ntype node_data) @ '') is related to:''
      in case map_result (node_lookup G) (neighbors G node_id) of
           Inl e \<Rightarrow> Inl e
         | Inr neighbor_data \<Rightarrow>
             (let neighbors_info = map neighbor_line neighbor_data;
                  neighbors_info = (if neighbors_info = []
                                    then [''  - No direct relationships found.'']
                                    else neighbors_info)
              in Inr (local_info @ ''\<newline>'' @ join ''\<newline>'' neighbors_info)))"

definition community_fragment :: "(string \<times> string) list \<Rightarrow> nat \<Rightarrow> string" where
  "community_fragment summaries cid =
     (let summary = (case map_of summaries (str_nat cid) of
                       None \<Rightarrow> ''No summary available.''
                     | Some text \<Rightarrow> text)
      in ''This topic belongs to a community summarized as: '' @ squote @ summary @ squote)"

definition source_excerpt :: "string \<Rightarrow> string \<Rightarrow> string" where
  "source_excerpt file review_text =
     ''--- START OF RELEVANT REVIEW ('' @ file @ '') ---\<newline>'' @ review_text
       @ ''\<newline>--- END OF REVIEW ---''"

record context_bundle =
  local_graph :: "string list"
  global_community :: "string list"
  source_text :: "string list"
  seen_communities :: "nat set"
  seen_source_files :: "string set"

definition empty_context :: context_bundle where
  "empty_context =
     \<lparr>local_graph = [], global_community = [], source_text = [],
      seen_communities = {}, seen_source_files = {}\<rparr>"

definition add_community_context :: "(string \<times> string) list \<Rightarrow> node_data \<Rightarrow> context_bundle \<Rightarrow> context_bundle" where
  "add_community_context summaries node_data ctx =
     (case community_id node_data of
        None \<Rightarrow> ctx
      | Some cid \<Rightarrow>
          if cid \<notin> seen_communities ctx
          then ctx\<lparr>global_community := global_community ctx @ [community_fragment summaries cid],
                   seen_communities := insert cid (seen_communities ctx)\<rparr>
          else ctx)"

text \<open>
  The reviews directory is read by file name; a name with no entry raises
  \<^verbatim>\<open>FileNotFoundError\<close>, which the loop ignores.  The empty name is falsy.
\<close>

definition add_source_context :: "directory \<Rightarrow> node_data \<Rightarrow> context_bundle \<Rightarrow> context_bundle" where
  "add_source_context reviews_dir node_data ctx =
     (case source_file node_data of
        None \<Rightarrow> ctx
      | Some file \<Rightarrow>
          if file \<noteq> [] \<and> file \<notin> seen_source_files ctx
          then (case map_of reviews_dir file of
                  None \<Rightarrow> ctx
                | Some review_text \<Rightarrow>
                    ctx\<lparr>source_text := source_text ctx @ [source_excerpt file review_text],
                        seen_source_files := insert file (seen_source_files ctx)\<rparr>)
          else ctx)"

fun augment_context ::
  "graph \<Rightarrow> (string \<times> string) list \<Rightarrow> directory \<Rightarrow> node_id list \<Rightarrow> context_bundle \<Rightarrow> error + context_bundle" where
  "augment_context G summaries reviews_dir [] ctx = Inr ctx"
| "augment_context G summaries reviews_dir (node_id # rest) ctx =
     (case node_lookup G node_id of
        Inl e \<Rightarrow> Inl e
      | Inr node_data \<Rightarrow>
          (case local_fragment G node_id node_data of
             Inl e \<Rightarrow> Inl e
           | Inr fragment \<Rightarrow>
               augment_context G summaries reviews_dir rest
                 (add_source_context reviews_dir node_data
                   (add_community_context summaries node_data
                     (ctx\<lparr>local_graph := local_graph ctx @ [fragment]\<rparr>)))))"

definition assemble_context :: "context_bundle \<Rightarrow> string" where
  "assemble_context ctx =
     ''CONTEXT FOR YOUR ANSWER:\<newline>\<newline>''
     @ (if global_community ctx \<noteq> []
        then ''## Overall Topic Summaries\<newline>'' @ join ''\<newline>'' (global_community ctx)
               @ ''\<newline>\<newline>''
        else [])
     @ (if local_graph ctx \<noteq> []
        then ''## Specific Entity Relationships\<newline>'' @ join ''\<newline>\<newline>'' (local_graph ctx)
               @ ''\<newline>\<newline>''
        else [])
     @ (if source_text ctx \<noteq> []
        then ''## Grounding Source Text from Original Reviews\<newline>''
               @ join ''\<newline>\<newline>'' (source_text ctx)
        else [])"

text \<open>
  The query embedder and the index's nearest-neighbour search are parameters.
  The search returns the list of row positions \<^verbatim>\<open>indices[0]\<close>.
\<close>

type_synonym 'a query_embedder = "string \<Rightarrow> string + 'a list"

type_synonym 'a searcher = "'a faiss_index \<Rightarrow> 'a list \<Rightarrow> nat \<Rightarrow> int list"

definition entry_points :: "node_id list \<Rightarrow> int list \<Rightarrow> error + node_id list" where
  "entry_points faiss_node_ids indices = map_result (py_getitem faiss_node_ids) indices"

definition retrieve_and_build_context ::
  "'a query_embedder \<Rightarrow> 'a searcher \<Rightarrow> string \<Rightarrow> graph \<Rightarrow> 'a faiss_index \<Rightarrow> node_id list
     \<Rightarrow> (string \<times> string) list \<Rightarrow> directory \<Rightarrow> nat \<Rightarrow> error + string" where
  "retrieve_and_build_context embed_query search query G faiss_index faiss_node_ids summaries
       reviews_dir top_k =
     (case embed_query query of
        Inl e \<Rightarrow> Inr []
      | Inr query_embedding \<Rightarrow>
          (case entry_points faiss_node_ids (search faiss_index query_embedding top_k) of
             Inl e \<Rightarrow> Inl e
           | Inr entry_point_node_ids \<Rightarrow>
               (case augment_context G summaries reviews_dir entry_point_node_ids empty_context of
                  Inl e \<Rightarrow> Inl e
                | Inr ctx \<Rightarrow> Inr (assemble_context ctx))))"

section \<open>Query time: the answer\<close>

definition answer_prompt :: "string \<Rightarrow> string \<Rightarrow> string" where
  "answer_prompt context_text query =
     ''\<newline>'' @
     ''    You are an AI assistant for a product manager. Your task is to answer questions based on a knowledge graph built from user reviews.\<newline>'' @
     ''    Use the provided context, which includes global summaries, local entity relationships, and original review text, to synthesize a comprehensive and actionable answer.\<newline>'' @
     ''    Do not mention the internal mechanics (e.g., '' @ dquote @ ''based on the community summary'' @ dquote
       @ ''). Answer the question directly and professionally.\<newline>'' @
     ''\<newline>'' @
     ''    '' @ context_text @ ''\<newline>'' @
     ''    ---\<newline>'' @
     ''\<newline>'' @
     ''    USER'' @ squote @ ''S QUESTION:\<newline>'' @
     ''    '' @ dquote @ query @ dquote @ ''\<newline>'' @
     ''\<newline>'' @
     ''    ANSWER:\<newline>'' @
     ''    ''"

definition must_build_message :: string where
  "must_build_message = ''Could not find the necessary index files. Please build the index first.''"

definition nothing_found_message :: string where
  "nothing_found_message =
     ''I couldn'' @ squote @ ''t find any relevant information in the knowledge graph to answer your question.''"

definition generation_error_message :: "string \<Rightarrow> string" where
  "generation_error_message e = ''An error occurred while generating the answer: '' @ e"

text \<open>
  The four files are loaded in the order graph, summaries, index, ids.  Opening
  a file that is missing raises \<^verbatim>\<open>FileNotFoundError\<close>, which is caught and
  answered with the "build first" message; \<^verbatim>\<open>faiss.read_index\<close> raises
  \<^verbatim>\<open>RuntimeError\<close> for a missing file, which is not caught.  The result is the
  answer together with the prompts sent to the generation backend.
\<close>

definition answer_query_with_graph ::
  "'a query_embedder \<Rightarrow> 'a searcher \<Rightarrow> llm \<Rightarrow> string \<Rightarrow> 'a index_directory \<Rightarrow> directory
     \<Rightarrow> error + string \<times> string list" where
  "answer_query_with_graph embed_query search generation_model query index_path reviews_dir =
     (case graph_pkl_file index_path of
        None \<Rightarrow> Inr (must_build_message, [])
      | Some G \<Rightarrow>
          (case community_summaries_file index_path of
             None \<Rightarrow> Inr (must_build_message, [])
           | Some summaries \<Rightarrow>
               (case entity_embeddings_file index_path of
                  None \<Rightarrow> Inl RuntimeError
                | Some faiss_index \<Rightarrow>
                    (case faiss_node_ids_file index_path of
                       None \<Rightarrow> Inr (must_build_message, [])
                     | Some faiss_node_ids \<Rightarrow>
                         (case retrieve_and_build_context embed_query search query G faiss_index
                                 faiss_node_ids summaries reviews_dir 5 of
                            Inl e \<Rightarrow> Inl e
                          | Inr context_text \<Rightarrow>
                              if context_text = [] then Inr (nothing_found_message, [])
                              else
                                (let prompt = answer_prompt context_text query
                                 in case generation_model prompt of
                                      Inl e \<Rightarrow> Inr (generation_error_message e, [prompt])
                                    | Inr text \<Rightarrow> Inr (text, [prompt])))))))"

section \<open>Notions used to state the properties\<close>

text \<open>Every edge joins two nodes of the graph.\<close>

definition edges_closed :: "graph \<Rightarrow> bool" where
  "edges_closed G = (\<forall>e \<in> set (edges G). has_node G (fst e) \<and> has_node G (fst (snd e)))"

text \<open>Provenance of a node, and whether the extraction of a review contains an id.\<close>

definition source_file_of :: "graph \<Rightarrow> node_id \<Rightarrow> string option" where
  "source_file_of G n = (case node_attrs G n of None \<Rightarrow> None | Some d \<Rightarrow> source_file d)"

definition item_id :: "json_item \<Rightarrow> string option" where
  "item_id item = (case subscript item ''id'' of Inl e \<Rightarrow> None | Inr i \<Rightarrow> Some i)"

definition entity_ids :: "extraction \<Rightarrow> node_id list" where
  "entity_ids ex = List.map_filter item_id (entities ex)"

definition mentions :: "extractor \<Rightarrow> string \<times> string \<Rightarrow> node_id \<Rightarrow> bool" where
  "mentions extractor file n =
     (case extractor (snd file) of
        None \<Rightarrow> False
      | Some ex \<Rightarrow> n \<in> set (entity_ids ex))"

text \<open>
  The edge a relationship item stands for, and whether both its endpoints are
  nodes of a graph.  A key that cannot be read gives the empty string, and an
  item whose source or target cannot be read is not accepted.
\<close>

definition field :: "json_item \<Rightarrow> string \<Rightarrow> string" where
  "field item key = (case subscript item key of Inl e \<Rightarrow> [] | Inr v \<Rightarrow> v)"

definition edge_of :: "json_item \<Rightarrow> node_id \<times> node_id \<times> string" where
  "edge_of rel = (field rel ''source'', field rel ''target'', field rel ''type'')"

definition accepted :: "graph \<Rightarrow> json_item \<Rightarrow> bool" where
  "accepted G rel =
     (case subscript rel ''source'' of
        Inl e \<Rightarrow> False
      | Inr s \<Rightarrow>
          has_node G s \<and> (case subscript rel ''target'' of Inl e \<Rightarrow> False | Inr t \<Rightarrow> has_node G t))"

text \<open>
  A parsed answer in which every entity has the keys \<open>id\<close>, \<open>type\<close>, \<open>value\<close>
  and every relationship the keys \<open>source\<close>, \<open>target\<close>, \<open>type\<close>, and a list
  of reviews whose parsed answers are all of that kind.
\<close>

definition has_keys :: "string list \<Rightarrow> json_item \<Rightarrow> bool" where
  "has_keys keys item = list_all (\<lambda>key. \<not> isl (subscript item key)) keys"

definition well_formed :: "extraction \<Rightarrow> bool" where
  "well_formed ex =
     (list_all (has_keys [''id'', ''type'', ''value'']) (entities ex)
      \<and> list_all (has_keys [''source'', ''target'', ''type'']) (relationships ex))"

definition all_well_formed :: "extractor \<Rightarrow> directory \<Rightarrow> bool" where
  "all_well_formed extractor files =
     list_all (\<lambda>file. case extractor (snd file) of None \<Rightarrow> True | Some ex \<Rightarrow> well_formed ex) files"

text \<open>A node of the undirected projection that no link touches.\<close>

definition isolated :: "ugraph \<Rightarrow> node_id \<Rightarrow> bool" where
  "isolated U n = (\<forall>l \<in> set (ulinks U). fst l \<noteq> n \<and> snd l \<noteq> n)"

text \<open>
  What an entry point contributes to the two deduplicated lists: its community
  id, and its source file when that is a non-empty name the directory holds.
  \<open>add_key\<close> is one step of \<open>ordered_keys\<close>.
\<close>

definition node_community :: "graph \<Rightarrow> node_id \<Rightarrow> nat option" where
  "node_community G n = (case node_attrs G n of None \<Rightarrow> None | Some d \<Rightarrow> community_id d)"

definition readable_source :: "graph \<Rightarrow> directory \<Rightarrow> node_id \<Rightarrow> string option" where
  "readable_source G reviews_dir n =
     (case source_file_of G n of
        None \<Rightarrow> None
      | Some file \<Rightarrow> if file \<noteq> [] \<and> map_of reviews_dir file \<noteq> None then Some file else None)"

definition excerpt_of :: "directory \<Rightarrow> string \<Rightarrow> string" where
  "excerpt_of reviews_dir file =
     (case map_of reviews_dir file of None \<Rightarrow> [] | Some review_text \<Rightarrow> source_excerpt file review_text)"

definition add_key :: "'a \<Rightarrow> 'a list \<Rightarrow> 'a list" where
  "add_key x acc = (if x \<in> set acc then acc else acc @ [x])"

text \<open>
  The successors of a node (the targets of the edges that leave it), the fixed
  parts of a local-context fragment and the first line of every context.
\<close>

definition successors :: "graph \<Rightarrow> node_id \<Rightarrow> node_id set" where
  "successors G n = set (map (\<lambda>e. fst (snd e)) (filter (\<lambda>e. fst e = n) (edges G)))"

definition entity_header :: "node_data \<Rightarrow> string" where
  "entity_header d =
     ''Entity '' @ squote @ py_str (nvalue d) @ squote @ '' (Type: '' @ py_str (ntype d)
       @ '') is related to:''"

definition no_relationships :: string where
  "no_relationships = ''  - No direct relationships found.''"

definition context_header :: string where
  "context_header = ''CONTEXT FOR YOUR ANSWER:\<newline>\<newline>''"

section \<open>Example corpus, index and backends\<close>

text \<open>
  A small corpus used to instantiate the theorems below: two reviews that
  mention the same entity, one file that is not a review, and one review whose
  extraction fails; a generation backend and an embedding backend that answer;
  the graph, the communities and the index files that the build makes of them.
\<close>

definition entity_item :: "string \<Rightarrow> string \<Rightarrow> string \<Rightarrow> json_item" where
  "entity_item i ty v = JObject [(''id'', i), (''type'', ty), (''value'', v)]"

definition relationship_item :: "string \<Rightarrow> string \<Rightarrow> string \<Rightarrow> json_item" where
  "relationship_item s t ty = JObject [(''source'', s), (''target'', t), (''type'', ty)]"

definition example_extractor :: extractor where
  "example_extractor text =
     (if text = ''crash on open''
      then Some \<lparr>entities = [entity_item ''bug1'' ''BUG_REPORT'' ''crash on open''],
                 relationships = [relationship_item ''bug1'' ''playlist'' ''related_to'']\<rparr>
      else if text = ''crash again''
      then Some \<lparr>entities = [entity_item ''bug1'' ''BUG_REPORT'' ''crash again'',
                              entity_item ''playlist'' ''PRODUCT_COMPONENT'' ''Playlist'',
                              entity_item ''dark_mode'' ''FEATURE_REQUEST'' ''Dark mode''],
                 relationships = [relationship_item ''playlist'' ''bug1'' ''affected_by'']\<rparr>
      else None)"

definition example_reviews :: directory where
  "example_reviews = [(''review_1.txt'', ''crash on open''), (''notes.md'', ''crash on open''),
                      (''review_2.txt'', ''crash again''), (''review_3.txt'', ''unparsable'')]"

definition dangling_example :: json_item where
  "dangling_example = relationship_item ''bug1'' ''playlist'' ''related_to''"

definition example_initial_graph :: graph where
  "example_initial_graph =
     \<lparr>nodes = [(''bug1'', \<lparr>ntype = Some ''BUG_REPORT'', nvalue = Some ''crash again'',
                          source_file = Some ''review_2.txt'', community_id = None\<rparr>),
               (''playlist'', \<lparr>ntype = Some ''PRODUCT_COMPONENT'', nvalue = Some ''Playlist'',
                          source_file = Some ''review_2.txt'', community_id = None\<rparr>),
               (''dark_mode'', \<lparr>ntype = Some ''FEATURE_REQUEST'', nvalue = Some ''Dark mode'',
                          source_file = Some ''review_2.txt'', community_id = None\<rparr>)],
      edges = [(''playlist'', ''bug1'', ''affected_by'')]\<rparr>"

definition example_llm :: llm where
  "example_llm prompt = Inr ''  Crashes around the playlist.  ''"

definition example_embedder :: "nat embedder" where
  "example_embedder texts = Inr (map (\<lambda>t. [length t, 1]) texts)"

definition example_graph :: graph where
  "example_graph =
     \<lparr>nodes = [(''bug1'', \<lparr>ntype = Some ''BUG_REPORT'', nvalue = Some ''crash again'',
                          source_file = Some ''review_2.txt'', community_id = Some 0\<rparr>),
               (''playlist'', \<lparr>ntype = Some ''PRODUCT_COMPONENT'', nvalue = Some ''Playlist'',
                          source_file = Some ''review_2.txt'', community_id = Some 0\<rparr>),
               (''dark_mode'', \<lparr>ntype = Some ''FEATURE_REQUEST'', nvalue = Some ''Dark mode'',
                          source_file = Some ''review_2.txt'', community_id = Some 1\<rparr>)],
      edges = [(''playlist'', ''bug1'', ''affected_by'')]\<rparr>"

definition example_communities :: "community list" where
  "example_communities = [[''bug1'', ''playlist''], [''dark_mode'']]"

definition example_index_files :: "nat artifacts" where
  "example_index_files =
     \<lparr>graph_pkl = example_graph,
      community_summaries_json = [(''0'', ''Crashes around the playlist.''),
                                  (''1'', ''Crashes around the playlist.'')],
      entity_embeddings_faiss = \<lparr>dimension = 2, vectors = [[11, 1], [8, 1], [9, 1]]\<rparr>,
      faiss_node_ids_json = [''bug1'', ''playlist'', ''dark_mode'']\<rparr>"

definition example_bug1 :: node_data where
  "example_bug1 = \<lparr>ntype = Some ''BUG_REPORT'', nvalue = Some ''crash again'',
                    source_file = Some ''review_2.txt'', community_id = Some 0\<rparr>"

definition example_playlist :: node_data where
  "example_playlist = \<lparr>ntype = Some ''PRODUCT_COMPONENT'', nvalue = Some ''Playlist'',
                        source_file = Some ''review_2.txt'', community_id = Some 0\<rparr>"

text \<open>
  A graph whose nodes have no attributes (its nodes were created by \<^verbatim>\<open>add_edge\<close>),
  an embedding backend that raises, one that returns rows of two lengths, and
  an extractor whose parsed answer has an entity without the key \<open>value\<close>.
\<close>

definition malformed_extractor :: extractor where
  "malformed_extractor text =
     Some \<lparr>entities = [entity_item ''dark_mode'' ''FEATURE_REQUEST'' ''Dark mode'',
                       JObject [(''id'', ''bug1''), (''type'', ''BUG_REPORT'')]],
           relationships = []\<rparr>"

definition valueless_graph :: graph where
  "valueless_graph = add_edge ''a'' ''b'' ''related_to'' MultiDiGraph"

definition failing_embedder :: "nat embedder" where
  "failing_embedder texts = Inl ''quota exceeded''"

definition ragged_embedder :: "nat embedder" where
  "ragged_embedder texts = Inr [[1], [1, 2]]"

text \<open>
  Query-time backends for the example index: a query embedder that answers and
  one that raises, a search that pads its three hits with \<open>-1\<close> up to \<open>k\<close>
  positions, a search that returns the first \<open>k\<close> rows of the index in order
  and pads with \<open>-1\<close>, and a generation backend that raises; and the files of
  an index without rows.
\<close>

definition example_query :: string where
  "example_query = ''why does it crash''"

definition example_query_embedder :: "nat query_embedder" where
  "example_query_embedder query = Inr [length query, 1]"

definition failing_query_embedder :: "nat query_embedder" where
  "failing_query_embedder query = Inl ''quota exceeded''"

definition padding_searcher :: "nat searcher" where
  "padding_searcher index query_embedding k = [1, 0, 2] @ replicate (k - 3) (- 1)"

definition flat_searcher :: "nat searcher" where
  "flat_searcher index query_embedding k =
     map int (take k [0..<length (vectors index)]) @ replicate (k - length (vectors index)) (- 1)"

definition empty_index_files :: "nat artifacts" where
  "empty_index_files =
     \<lparr>graph_pkl = MultiDiGraph,
      community_summaries_json = [],
      entity_embeddings_faiss = \<lparr>dimension = 2, vectors = []\<rparr>,
      faiss_node_ids_json = []\<rparr>"

definition failing_llm :: llm where
  "failing_llm prompt = Inl ''rate limited''"

text \<open>
  Entry points for the example index, with the context the loop builds from
  them, the fragment of one node and the context of the example query.
\<close>

definition example_entry_points :: "node_id list" where
  "example_entry_points = [''bug1'', ''playlist'', ''dark_mode'', ''playlist'']"

definition example_context :: context_bundle where
  "example_context =
     projr (augment_context example_graph (community_summaries_json example_index_files)
              example_reviews example_entry_points empty_context)"

definition example_playlist_fragment :: string where
  "example_playlist_fragment = projr (local_fragment example_graph ''playlist'' example_playlist)"

definition example_context_text :: string where
  "example_context_text =
     projr (retrieve_and_build_context example_query_embedder padding_searcher example_query
              example_graph (entity_embeddings_faiss example_index_files)
              (faiss_node_ids_json example_index_files)
              (community_summaries_json example_index_files) example_reviews 5)"

section \<open>Facts about the store\<close>

lemma map_fst_update_node: "map fst (update_node n g xs) = map fst xs"
  by (induction xs) (auto simp: update_node_def)

lemma map_of_update_node:
  "map_of (update_node n g xs) k = (if k = n then map_option g (map_of xs k) else map_of xs k)"
  by (induction xs) (auto simp: update_node_def)

lemma node_ids_add_node:
  "map fst (nodes (add_node n ty v sf G)) =
     (if has_node G n then map fst (nodes G) else map fst (nodes G) @ [n])"
  by (simp add: add_node_def map_fst_update_node)

lemma has_node_add_node: "has_node (add_node n ty v sf G) m \<longleftrightarrow> m = n \<or> has_node G m"
  unfolding has_node_def node_ids_add_node by (auto simp: has_node_def)

lemma edges_add_node: "edges (add_node n ty v sf G) = edges G"
  by (simp add: add_node_def)

lemma ensure_node_present: "has_node G n \<Longrightarrow> ensure_node n G = G"
  by (simp add: ensure_node_def)

lemma add_edge_present:
  "has_node G u \<Longrightarrow> has_node G v \<Longrightarrow> add_edge u v ty G = G\<lparr>edges := edges G @ [(u, v, ty)]\<rparr>"
  by (simp add: add_edge_def ensure_node_present)

lemma has_node_iff_attrs: "has_node G n \<longleftrightarrow> node_attrs G n \<noteq> None"
  by (simp add: has_node_def node_attrs_def map_of_eq_None_iff)

lemma node_attrs_add_node:
  "node_attrs (add_node n ty v sf G) m =
     (if m = n
      then Some (set_entity_attrs ty v sf (case node_attrs G n of None \<Rightarrow> no_attrs | Some d \<Rightarrow> d))
      else node_attrs G m)"
proof (cases "has_node G n")
  case True
  then obtain d where "node_attrs G n = Some d"
    by (auto simp: has_node_iff_attrs)
  with True show ?thesis
    by (simp add: add_node_def node_attrs_def map_of_update_node)
next
  case False
  then have "node_attrs G n = None"
    by (simp add: has_node_iff_attrs)
  with False show ?thesis
    by (auto simp: add_node_def node_attrs_def map_add_def split: option.splits)
qed

lemma fold_result_invariant:
  assumes "fold_result f xs s = Inr s'" and "P s"
    and "\<And>x s t. P s \<Longrightarrow> f x s = Inr t \<Longrightarrow> P t"
  shows "P s'"
  using assms(1,2)
proof (induction xs arbitrary: s)
  case Nil
  then show ?case by simp
next
  case (Cons x xs)
  from Cons.prems(1) obtain t where t: "f x s = Inr t" and rest: "fold_result f xs t = Inr s'"
    by (auto split: sum.splits)
  from Cons.prems(2) t have "P t" by (rule assms(3))
  with rest show ?case by (rule Cons.IH)
qed

lemma fold_result_total:
  "(\<And>x s. x \<in> set xs \<Longrightarrow> \<exists>t. f x s = Inr t) \<Longrightarrow> \<exists>s'. fold_result f xs s = Inr s'"
proof (induction xs arbitrary: s)
  case Nil
  show ?case by simp
next
  case (Cons x xs)
  from Cons.prems obtain t where "f x s = Inr t" by force
  moreover from Cons obtain s' where "fold_result f xs t = Inr s'" by force
  ultimately show ?case by simp
qed

lemma add_entity_Inr:
  assumes "add_entity f e G = Inr G'"
  obtains i ty v where "item_id e = Some i" and "G' = add_node i ty v f G"
  using assms by (auto simp: add_entity_def item_id_def split: sum.splits)

lemma has_node_add_entity:
  "add_entity f e G = Inr G' \<Longrightarrow> has_node G' m \<longleftrightarrow> item_id e = Some m \<or> has_node G m"
  by (erule add_entity_Inr) (auto simp: has_node_add_node)

lemma edges_add_entity: "add_entity f e G = Inr G' \<Longrightarrow> edges G' = edges G"
  by (erule add_entity_Inr) (simp add: edges_add_node)

lemma source_file_of_add_entity:
  "add_entity f e G = Inr G' \<Longrightarrow>
     source_file_of G' m = (if item_id e = Some m then Some f else source_file_of G m)"
  by (erule add_entity_Inr)
    (auto simp: source_file_of_def node_attrs_add_node set_entity_attrs_def)

lemma distinct_node_ids_add_entity:
  "add_entity f e G = Inr G' \<Longrightarrow> distinct (map fst (nodes G)) \<Longrightarrow> distinct (map fst (nodes G'))"
  by (erule add_entity_Inr) (simp add: node_ids_add_node has_node_def)

lemma map_filter_item_id_Cons:
  "set (List.map_filter item_id (e # es)) =
     (case item_id e of None \<Rightarrow> {} | Some i \<Rightarrow> {i}) \<union> set (List.map_filter item_id es)"
  by (simp add: List.map_filter_simps split: option.splits)

lemma has_node_fold_add_entity:
  "fold_result (add_entity f) es G = Inr G' \<Longrightarrow>
     has_node G' m \<longleftrightarrow> m \<in> set (List.map_filter item_id es) \<or> has_node G m"
proof (induction es arbitrary: G)
  case Nil
  then show ?case by (simp add: List.map_filter_simps)
next
  case (Cons e es)
  from Cons.prems obtain G1 where one: "add_entity f e G = Inr G1"
    and rest: "fold_result (add_entity f) es G1 = Inr G'"
    by (auto split: sum.splits)
  show ?case
    unfolding Cons.IH [OF rest] has_node_add_entity [OF one] map_filter_item_id_Cons
    by (auto split: option.splits)
qed

lemma edges_fold_add_entity:
  assumes "fold_result (add_entity f) es G = Inr G'"
  shows "edges G' = edges G"
proof (rule fold_result_invariant [OF assms])
  show "edges G = edges G" ..
next
  fix x s t
  assume "edges s = edges G" and "add_entity f x s = Inr t"
  then show "edges t = edges G"
    using edges_add_entity [of f x s t] by simp
qed

lemma distinct_node_ids_fold_add_entity:
  assumes "fold_result (add_entity f) es G = Inr G'" and "distinct (map fst (nodes G))"
  shows "distinct (map fst (nodes G'))"
proof (rule fold_result_invariant [OF assms(1)])
  show "distinct (map fst (nodes G))" by (rule assms(2))
next
  fix x s t
  assume "distinct (map fst (nodes s))" and "add_entity f x s = Inr t"
  then show "distinct (map fst (nodes t))"
    by (rule distinct_node_ids_add_entity [rotated])
qed

lemma source_file_of_fold_add_entity:
  "fold_result (add_entity f) es G = Inr G' \<Longrightarrow>
     source_file_of G' m =
       (if m \<in> set (List.map_filter item_id es) then Some f else source_file_of G m)"
proof (induction es arbitrary: G)
  case Nil
  then show ?case by (simp add: List.map_filter_simps)
next
  case (Cons e es)
  from Cons.prems obtain G1 where one: "add_entity f e G = Inr G1"
    and rest: "fold_result (add_entity f) es G1 = Inr G'"
    by (auto split: sum.splits)
  show ?case
    unfolding Cons.IH [OF rest] source_file_of_add_entity [OF one] map_filter_item_id_Cons
    by (auto split: option.splits)
qed

lemma accepted_nodes: "nodes G' = nodes G \<Longrightarrow> accepted G' = accepted G"
  by (rule ext) (auto simp: accepted_def has_node_def split: sum.splits)

lemma accepted_endpoints:
  "accepted G r \<Longrightarrow> has_node G (fst (edge_of r)) \<and> has_node G (fst (snd (edge_of r)))"
  by (auto simp: accepted_def edge_of_def field_def split: sum.splits)

lemma add_relationship_Inr:
  assumes "add_relationship r G = Inr G'"
  shows "nodes G' = nodes G \<and> edges G' = edges G @ (if accepted G r then [edge_of r] else [])"
  using assms
  by (auto simp: add_relationship_def accepted_def edge_of_def field_def add_edge_present
      split: sum.splits if_splits)

lemma fold_add_relationship_Inr:
  "fold_result add_relationship rs G = Inr G' \<Longrightarrow>
     nodes G' = nodes G \<and> edges G' = edges G @ map edge_of (filter (accepted G) rs)"
proof (induction rs arbitrary: G)
  case Nil
  then show ?case by simp
next
  case (Cons r rs)
  from Cons.prems obtain G1 where one: "add_relationship r G = Inr G1"
    and rest: "fold_result add_relationship rs G1 = Inr G'"
    by (auto split: sum.splits)
  note step = add_relationship_Inr [OF one]
  have same: "accepted G1 = accepted G"
    by (rule accepted_nodes [OF step [THEN conjunct1]])
  from Cons.IH [OF rest] step show ?case
    by (simp add: same)
qed

lemma process_review_Inr:
  assumes "process_review extractor file G = Inr G'"
  obtains "extractor (snd file) = None" and "G' = G"
  | ex G1 where "extractor (snd file) = Some ex"
      and "fold_result (add_entity (fst file)) (entities ex) G = Inr G1"
      and "fold_result add_relationship (relationships ex) G1 = Inr G'"
  using assms by (auto simp: process_review_def split: option.splits sum.splits)

lemma add_entity_total:
  "has_keys [''id'', ''type'', ''value''] e \<Longrightarrow> \<exists>G'. add_entity f e G = Inr G'"
  by (auto simp: has_keys_def add_entity_def split: sum.splits)

lemma add_relationship_total:
  "has_keys [''source'', ''target'', ''type''] r \<Longrightarrow> \<exists>G'. add_relationship r G = Inr G'"
  by (auto simp: has_keys_def add_relationship_def split: sum.splits)

lemma process_review_total:
  assumes "case extractor (snd file) of None \<Rightarrow> True | Some ex \<Rightarrow> well_formed ex"
  shows "\<exists>G'. process_review extractor file G = Inr G'"
proof (cases "extractor (snd file)")
  case None
  then show ?thesis by (simp add: process_review_def)
next
  case (Some ex)
  with assms have wf: "well_formed ex" by simp
  have "\<exists>G1. fold_result (add_entity (fst file)) (entities ex) G = Inr G1"
    using wf by (intro fold_result_total add_entity_total) (simp add: well_formed_def list_all_iff)
  then obtain G1 where G1: "fold_result (add_entity (fst file)) (entities ex) G = Inr G1" ..
  have "\<exists>G'. fold_result add_relationship (relationships ex) G1 = Inr G'"
    using wf by (intro fold_result_total add_relationship_total) (simp add: well_formed_def list_all_iff)
  with Some G1 show ?thesis
    by (simp add: process_review_def)
qed

lemma build_initial_graph_total:
  assumes "all_well_formed extractor (review_files reviews_dir)"
  shows "\<exists>G. build_initial_graph extractor reviews_dir = Inr G"
  unfolding build_initial_graph_def
  using assms
  by (intro fold_result_total process_review_total) (simp add: all_well_formed_def list_all_iff)

lemma edges_closed_process_review:
  assumes "process_review extractor file G = Inr G'" and "edges_closed G"
  shows "edges_closed G'"
  using assms(1)
proof (cases rule: process_review_Inr)
  case 1
  with assms(2) show ?thesis by simp
next
  case (2 ex G1)
  note rels = fold_add_relationship_Inr [OF 2(3)]
  have nodes_grow: "has_node G m \<Longrightarrow> has_node G1 m" for m
    by (simp add: has_node_fold_add_entity [OF 2(2)])
  have "edges_closed G1"
    using assms(2) nodes_grow by (auto simp: edges_closed_def edges_fold_add_entity [OF 2(2)])
  moreover have "has_node G' = has_node G1"
    using rels by (auto simp: has_node_def)
  ultimately show ?thesis
    using rels accepted_endpoints [of G1] by (auto simp: edges_closed_def)
qed

lemma edges_closed_build_initial_graph:
  assumes "build_initial_graph extractor reviews_dir = Inr G"
  shows "edges_closed G"
proof (rule fold_result_invariant [OF assms [unfolded build_initial_graph_def]])
  show "edges_closed MultiDiGraph"
    by (simp add: edges_closed_def MultiDiGraph_def)
next
  fix entry H H'
  assume "edges_closed H" and "process_review extractor entry H = Inr H'"
  then show "edges_closed H'"
    by (rule edges_closed_process_review [rotated])
qed

lemma distinct_node_ids_process_review:
  assumes "process_review extractor file G = Inr G'" and "distinct (map fst (nodes G))"
  shows "distinct (map fst (nodes G'))"
  using assms(1)
proof (cases rule: process_review_Inr)
  case 1
  with assms(2) show ?thesis by simp
next
  case (2 ex G1)
  from distinct_node_ids_fold_add_entity [OF 2(2) assms(2)] fold_add_relationship_Inr [OF 2(3)]
  show ?thesis by simp
qed

lemma distinct_node_ids_build:
  assumes "build_initial_graph extractor reviews_dir = Inr G"
  shows "distinct (map fst (nodes G))"
proof (rule fold_result_invariant [OF assms [unfolded build_initial_graph_def]])
  show "distinct (map fst (nodes MultiDiGraph))"
    by (simp add: MultiDiGraph_def)
next
  fix entry H H'
  assume "distinct (map fst (nodes H))" and "process_review extractor entry H = Inr H'"
  then show "distinct (map fst (nodes H'))"
    by (rule distinct_node_ids_process_review [rotated])
qed

lemma source_file_of_process_review:
  assumes "process_review extractor file G = Inr G'"
  shows "source_file_of G' m =
     (if mentions extractor file m then Some (fst file) else source_file_of G m)"
  using assms
proof (cases rule: process_review_Inr)
  case 1
  then show ?thesis by (simp add: mentions_def)
next
  case (2 ex G1)
  have "source_file_of G' m = source_file_of G1 m"
    using fold_add_relationship_Inr [OF 2(3)] by (simp add: source_file_of_def node_attrs_def)
  then show ?thesis
    using 2(1) by (simp add: source_file_of_fold_add_entity [OF 2(2)] mentions_def entity_ids_def)
qed

lemma source_file_of_unmentioned:
  assumes "fold_result (process_review extractor) files G = Inr G'"
    and "\<forall>f \<in> set files. \<not> mentions extractor f m"
  shows "source_file_of G' m = source_file_of G m"
  using assms
proof (induction files arbitrary: G)
  case Nil
  then show ?case by simp
next
  case (Cons entry files)
  from Cons.prems(1) obtain G1 where one: "process_review extractor entry G = Inr G1"
    and rest: "fold_result (process_review extractor) files G1 = Inr G'"
    by (auto split: sum.splits)
  have "source_file_of G' m = source_file_of G1 m"
    using rest Cons.prems(2) by (intro Cons.IH) simp_all
  also have "\<dots> = source_file_of G m"
    using Cons.prems(2) by (simp add: source_file_of_process_review [OF one])
  finally show ?case .
qed

lemma fold_result_append:
  "fold_result f (xs @ ys) s =
     (case fold_result f xs s of Inl e \<Rightarrow> Inl e | Inr t \<Rightarrow> fold_result f ys t)"
  by (induction xs arbitrary: s) (auto split: sum.splits)

lemma map_of_map_attrs:
  "map_of (map (\<lambda>(k, d). (k, h k d)) xs) k = map_option (h k) (map_of xs k)"
  by (induction xs) auto

lemma nodes_set_community_ids:
  "nodes (set_community_ids G m) =
     map (\<lambda>(k, d). (k, case m k of None \<Rightarrow> d | Some i \<Rightarrow> d\<lparr>community_id := Some i\<rparr>)) (nodes G)"
  by (auto simp: set_community_ids_def split: option.splits)

lemma node_attrs_set_community_ids:
  "node_attrs (set_community_ids G m) k =
     map_option (\<lambda>d. case m k of None \<Rightarrow> d | Some i \<Rightarrow> d\<lparr>community_id := Some i\<rparr>) (node_attrs G k)"
  unfolding node_attrs_def nodes_set_community_ids
  by (rule map_of_map_attrs)

lemma source_file_of_set_community_ids:
  "source_file_of (set_community_ids G m) k = source_file_of G k"
  by (cases "node_attrs G k") (auto simp: source_file_of_def node_attrs_set_community_ids split: option.splits)

lemma graph_pkl_build:
  "build_knowledge_graph extractor llm_model embed_content reviews_dir = Inr (Some files) \<Longrightarrow>
     \<exists>G0. build_initial_graph extractor reviews_dir = Inr G0
       \<and> graph_pkl files = fst (detect_and_store_communities G0)"
  by (auto simp: build_knowledge_graph_def Let_def split: if_splits prod.splits sum.splits option.splits)

lemma example_review_files:
  "review_files example_reviews =
     [(''review_1.txt'', ''crash on open'')] @ (''review_2.txt'', ''crash again'') # [(''review_3.txt'', ''unparsable'')]"
  by code_simp

lemma example_initial_build:
  "build_initial_graph example_extractor example_reviews = Inr example_initial_graph"
  by code_simp

lemma example_build:
  "build_knowledge_graph example_extractor example_llm example_embedder example_reviews
     = Inr (Some example_index_files)"
  by code_simp

section \<open>Dangling relationships\<close>

text \<open>
  Claim C4.  A relationship whose source or target is not a node of the graph
  when it is inserted leaves the graph as it is: no edge is added, no endpoint
  is created and nothing is raised (the target is not read when the source is
  no node).  Hence a review whose processing returns
  contributes exactly the edges of those of its relationships whose two
  endpoints are nodes once the review's entities have been added, in order;
  processing returns for every parsed answer that has all its keys; and every
  edge of the graph after step 1 of the build joins two nodes of that graph.
\<close>

theorem dangling_relationship_is_dropped:
  "(subscript r ''source'' = Inr s \<and> \<not> has_node H s \<longrightarrow> add_relationship r H = Inr H)
   \<and> (subscript r ''source'' = Inr s \<and> subscript r ''target'' = Inr t \<and> \<not> has_node H t \<longrightarrow>
        add_relationship r H = Inr H)
   \<and> (extractor (snd file) = Some ex \<and> process_review extractor file G = Inr G' \<longrightarrow>
        (\<exists>G1. fold_result (add_entity (fst file)) (entities ex) G = Inr G1
           \<and> nodes G' = nodes G1
           \<and> edges G' = edges G @ map edge_of (filter (accepted G1) (relationships ex))))
   \<and> (extractor (snd file) = Some ex \<and> well_formed ex \<longrightarrow>
        (\<exists>G'. process_review extractor file G = Inr G'))
   \<and> (build_initial_graph extractor reviews_dir = Inr G0 \<longrightarrow>
        (\<forall>e \<in> set (edges G0). has_node G0 (fst e) \<and> has_node G0 (fst (snd e))))"
proof (intro conjI impI)
  assume "subscript r ''source'' = Inr s \<and> \<not> has_node H s"
  then show "add_relationship r H = Inr H"
    by (simp add: add_relationship_def)
next
  assume "subscript r ''source'' = Inr s \<and> subscript r ''target'' = Inr t \<and> \<not> has_node H t"
  then show "add_relationship r H = Inr H"
    by (simp add: add_relationship_def)
next
  assume run: "extractor (snd file) = Some ex \<and> process_review extractor file G = Inr G'"
  then have "process_review extractor file G = Inr G'" ..
  then show "\<exists>G1. fold_result (add_entity (fst file)) (entities ex) G = Inr G1
           \<and> nodes G' = nodes G1
           \<and> edges G' = edges G @ map edge_of (filter (accepted G1) (relationships ex))"
  proof (cases rule: process_review_Inr)
    case 1
    with run show ?thesis by simp
  next
    case (2 ex' G1)
    with run have same: "ex' = ex" by simp
    from fold_add_relationship_Inr [OF 2(3)] edges_fold_add_entity [OF 2(2)] 2(2)
    show ?thesis
      unfolding same by auto
  qed
next
  assume "extractor (snd file) = Some ex \<and> well_formed ex"
  then show "\<exists>G'. process_review extractor file G = Inr G'"
    by (intro process_review_total) simp
next
  assume "build_initial_graph extractor reviews_dir = Inr G0"
  then show "\<forall>e \<in> set (edges G0). has_node G0 (fst e) \<and> has_node G0 (fst (snd e))"
    using edges_closed_build_initial_graph [of extractor reviews_dir G0]
    by (simp add: edges_closed_def)
qed

theorem dangling_relationship_is_dropped_witness:
  "subscript dangling_example ''source'' = Inr ''bug1''
   \<and> subscript dangling_example ''target'' = Inr ''playlist''
   \<and> \<not> has_node (add_node ''bug1'' ''BUG_REPORT'' ''crash on open'' ''review_1.txt'' MultiDiGraph)
         ''playlist''
   \<and> add_relationship dangling_example
         (add_node ''bug1'' ''BUG_REPORT'' ''crash on open'' ''review_1.txt'' MultiDiGraph)
       = Inr (add_node ''bug1'' ''BUG_REPORT'' ''crash on open'' ''review_1.txt'' MultiDiGraph)
   \<and> \<not> has_node MultiDiGraph ''bug1''
   \<and> add_relationship dangling_example MultiDiGraph = Inr MultiDiGraph
   \<and> well_formed \<lparr>entities = [entity_item ''bug1'' ''BUG_REPORT'' ''crash on open''],
                   relationships = [dangling_example]\<rparr>
   \<and> process_review example_extractor (''review_1.txt'', ''crash on open'') MultiDiGraph
       = Inr (add_node ''bug1'' ''BUG_REPORT'' ''crash on open'' ''review_1.txt'' MultiDiGraph)
   \<and> edges (add_node ''bug1'' ''BUG_REPORT'' ''crash on open'' ''review_1.txt'' MultiDiGraph) = []
   \<and> build_initial_graph example_extractor example_reviews = Inr example_initial_graph
   \<and> has_node example_initial_graph ''playlist''
   \<and> has_node example_initial_graph ''bug1''"
proof -
  let ?ex = "\<lparr>entities = [entity_item ''bug1'' ''BUG_REPORT'' ''crash on open''],
               relationships = [dangling_example]\<rparr>"
  let ?G = "add_node ''bug1'' ''BUG_REPORT'' ''crash on open'' ''review_1.txt'' MultiDiGraph"
  note inst = dangling_relationship_is_dropped
      [where r = dangling_example and s = "''bug1''" and t = "''playlist''" and H = ?G
         and extractor = example_extractor and ?file = "(''review_1.txt'', ''crash on open'')"
         and ex = ?ex and G = MultiDiGraph and G' = ?G and reviews_dir = example_reviews
         and ?G0.0 = example_initial_graph]
  note fresh = dangling_relationship_is_dropped
      [where r = dangling_example and s = "''bug1''" and t = "''playlist''" and H = MultiDiGraph
         and extractor = example_extractor and ?file = "(''review_1.txt'', ''crash on open'')"
         and ex = ?ex and G = MultiDiGraph and G' = ?G and reviews_dir = example_reviews
         and ?G0.0 = example_initial_graph]
  have keys: "subscript dangling_example ''source'' = Inr ''bug1''
      \<and> subscript dangling_example ''target'' = Inr ''playlist''"
    by code_simp
  have absent: "\<not> has_node ?G ''playlist''"
    by code_simp
  have extracted: "example_extractor (snd (''review_1.txt'', ''crash on open'')) = Some ?ex"
    by code_simp
  have processed: "process_review example_extractor (''review_1.txt'', ''crash on open'') MultiDiGraph
      = Inr ?G"
    by code_simp
  have wf: "well_formed ?ex"
    by code_simp
  have last_edge: "(''playlist'', ''bug1'', ''affected_by'') \<in> set (edges example_initial_graph)"
    by code_simp
  have noop: "add_relationship dangling_example ?G = Inr ?G"
    using inst [THEN conjunct2, THEN conjunct1] keys absent by blast
  have no_source: "\<not> has_node MultiDiGraph ''bug1''"
    by code_simp
  have noop_source: "add_relationship dangling_example MultiDiGraph = Inr MultiDiGraph"
    using fresh [THEN conjunct1] keys no_source by blast
  from inst [THEN conjunct2, THEN conjunct2, THEN conjunct1] extracted processed
  obtain G1 where G1: "fold_result (add_entity (fst (''review_1.txt'', ''crash on open'')))
        (entities ?ex) MultiDiGraph = Inr G1"
    and added: "edges ?G = edges MultiDiGraph @ map edge_of (filter (accepted G1) (relationships ?ex))"
    by blast
  have "fold_result (add_entity (fst (''review_1.txt'', ''crash on open'')))
        (entities ?ex) MultiDiGraph = Inr ?G"
    by code_simp
  with G1 have "G1 = ?G" by simp
  moreover have "map edge_of (filter (accepted ?G) (relationships ?ex)) = []"
    by code_simp
  moreover have "edges MultiDiGraph = []"
    by (simp add: MultiDiGraph_def)
  ultimately have none: "edges ?G = []"
    using added by simp
  from inst [THEN conjunct2, THEN conjunct2, THEN conjunct2, THEN conjunct2]
    example_initial_build last_edge
  have closed: "has_node example_initial_graph ''playlist'' \<and> has_node example_initial_graph ''bug1''"
    by fastforce
  show ?thesis
    by (rule conjI [OF keys [THEN conjunct1] conjI [OF keys [THEN conjunct2] conjI [OF absent
          conjI [OF noop conjI [OF no_source conjI [OF noop_source conjI [OF wf
          conjI [OF processed conjI [OF none conjI [OF example_initial_build closed]]]]]]]]]])
qed

section \<open>Duplicate entity ids\<close>

text \<open>
  Claim C7, as amended.  When an entity id is added more than once during a
  build, the \<open>source_file\<close> retained for it is the file name of the last review
  whose extraction contains the id: \<^verbatim>\<open>add_node\<close> overwrites the attributes of a
  node that is already present.  Community detection does not touch the
  attribute, so the persisted graph holds the same value.
\<close>

theorem source_file_last_writer_wins:
  assumes "review_files reviews_dir = before @ file # after"
    and "mentions extractor file n"
    and "\<forall>f \<in> set after. \<not> mentions extractor f n"
  shows "(build_initial_graph extractor reviews_dir = Inr G0 \<longrightarrow>
           source_file_of G0 n = Some (fst file))
    \<and> (build_knowledge_graph extractor llm_model embed_content reviews_dir = Inr (Some files)
         \<longrightarrow> source_file_of (graph_pkl files) n = Some (fst file))"
proof -
  have initial: "source_file_of H n = Some (fst file)"
    if run: "build_initial_graph extractor reviews_dir = Inr H" for H
  proof -
    from run obtain Gb G1 where "fold_result (process_review extractor) before MultiDiGraph = Inr Gb"
      and one: "process_review extractor file Gb = Inr G1"
      and rest: "fold_result (process_review extractor) after G1 = Inr H"
      unfolding build_initial_graph_def assms(1) fold_result_append
      by (auto split: sum.splits)
    have "source_file_of H n = source_file_of G1 n"
      using rest assms(3) by (rule source_file_of_unmentioned)
    also have "\<dots> = Some (fst file)"
      using assms(2) by (simp add: source_file_of_process_review [OF one])
    finally show ?thesis .
  qed
  have persisted: "source_file_of (graph_pkl files) n = Some (fst file)"
    if "build_knowledge_graph extractor llm_model embed_content reviews_dir = Inr (Some files)"
  proof -
    from graph_pkl_build [OF that] obtain H
      where "build_initial_graph extractor reviews_dir = Inr H"
        and "graph_pkl files = fst (detect_and_store_communities H)"
      by blast
    with initial [of H] show ?thesis
      by (simp add: detect_and_store_communities_def Let_def source_file_of_set_community_ids)
  qed
  from initial persisted show ?thesis by blast
qed

theorem source_file_last_writer_wins_witness:
  "mentions example_extractor (''review_2.txt'', ''crash again'') ''bug1''
   \<and> \<not> mentions example_extractor (''review_3.txt'', ''unparsable'') ''bug1''
   \<and> build_initial_graph example_extractor example_reviews = Inr example_initial_graph
   \<and> source_file_of example_initial_graph ''bug1'' = Some ''review_2.txt''
   \<and> build_knowledge_graph example_extractor example_llm example_embedder example_reviews
        = Inr (Some example_index_files)
   \<and> source_file_of (graph_pkl example_index_files) ''bug1'' = Some ''review_2.txt''"
proof -
  have last: "mentions example_extractor (''review_2.txt'', ''crash again'') ''bug1''"
    by code_simp
  have later: "\<not> mentions example_extractor (''review_3.txt'', ''unparsable'') ''bug1''"
    by code_simp
  then have none_later:
    "\<forall>f \<in> set [(''review_3.txt'', ''unparsable'')]. \<not> mentions example_extractor f ''bug1''"
    by simp
  note inst = source_file_last_writer_wins [OF example_review_files last none_later,
      of example_initial_graph example_llm example_embedder example_index_files]
  have c1: "source_file_of example_initial_graph ''bug1'' = Some ''review_2.txt''"
    using inst [THEN conjunct1, THEN mp, OF example_initial_build] by simp
  have c2: "source_file_of (graph_pkl example_index_files) ''bug1'' = Some ''review_2.txt''"
    using inst [THEN conjunct2, THEN mp, OF example_build] by simp
  show ?thesis
    by (rule conjI [OF last conjI [OF later conjI [OF example_initial_build
          conjI [OF c1 conjI [OF example_build c2]]]]])
qed

text \<open>
  The claim as written (the first writer wins) fails on the example corpus:
  \<open>bug1\<close> is extracted from \<open>review_1.txt\<close> first and from \<open>review_2.txt\<close>
  later, and the graph keeps \<open>review_2.txt\<close>.
\<close>

theorem source_file_first_writer_counterexample:
  "hd (review_files example_reviews) = (''review_1.txt'', ''crash on open'')
   \<and> mentions example_extractor (''review_1.txt'', ''crash on open'') ''bug1''
   \<and> build_initial_graph example_extractor example_reviews = Inr example_initial_graph
   \<and> source_file_of example_initial_graph ''bug1'' \<noteq> Some ''review_1.txt''
   \<and> build_knowledge_graph example_extractor example_llm example_embedder example_reviews
        = Inr (Some example_index_files)
   \<and> source_file_of (graph_pkl example_index_files) ''bug1'' \<noteq> Some ''review_1.txt''"
  by code_simp

section \<open>Facts about community detection\<close>

lemma isolated_not_adjacent: "isolated U n \<Longrightarrow> \<not> adjacent U n v \<and> \<not> adjacent U v n"
  by (auto simp: isolated_def adjacent_def)

lemma isolated_degree: "isolated U n \<Longrightarrow> degree U n = 0"
  by (simp add: degree_def isolated_not_adjacent)

lemma isolated_links_left: "isolated U n \<Longrightarrow> links_between U [n] B = 0"
  by (simp add: links_between_def isolated_not_adjacent)

lemma isolated_links_right: "isolated U n \<Longrightarrow> links_between U A [n] = 0"
  by (induction A) (simp_all add: links_between_def isolated_not_adjacent)

lemma isolated_gain:
  "isolated U n \<Longrightarrow> modularity_gain U [n] B = 0 \<and> modularity_gain U A [n] = 0"
  by (simp add: modularity_gain_def isolated_links_left isolated_links_right
      community_degree_def isolated_degree)

lemma improving_merge_not_isolated:
  assumes "improving_merge U cs = Some p" and "isolated U n"
  shows "fst p \<noteq> [n] \<and> snd p \<noteq> [n]"
proof -
  have "0 < modularity_gain U (fst p) (snd p)"
    using assms(1) improving_merge_pair [of U cs "fst p" "snd p"] by simp
  then show ?thesis
    using isolated_gain [OF assms(2)] by (metis less_irrefl)
qed

lemma singleton_survives_merge:
  "A \<noteq> C \<Longrightarrow> B \<noteq> C \<Longrightarrow> C \<in> set cs \<Longrightarrow> C \<in> set (merge_communities A B cs)"
  by (simp add: merge_communities_def)

lemma greedy_merge_keeps_isolated:
  "isolated U n \<Longrightarrow> [n] \<in> set cs \<Longrightarrow> [n] \<in> set (greedy_merge U cs)"
proof (induction U cs rule: greedy_merge.induct)
  case (1 U cs)
  show ?case
  proof (cases "improving_merge U cs")
    case None
    then show ?thesis using "1.prems" by (subst greedy_merge.simps) simp
  next
    case (Some p)
    have "fst p \<noteq> [n] \<and> snd p \<noteq> [n]"
      using Some "1.prems"(1) by (rule improving_merge_not_isolated)
    then have "[n] \<in> set (merge_communities (fst p) (snd p) cs)"
      using "1.prems"(2) by (simp add: singleton_survives_merge)
    then have "[n] \<in> set (greedy_merge U (merge_communities (fst p) (snd p) cs))"
      using "1.IH" Some "1.prems"(1) by simp
    then show ?thesis using Some by (subst greedy_merge.simps) simp
  qed
qed

lemma mset_concat_sum: "mset (concat cs) = \<Sum>\<^sub># (image_mset mset (mset cs))"
proof -
  have "mset (concat cs) = sum_list (map mset cs)"
    by (rule mset_concat)
  also have "\<dots> = \<Sum>\<^sub># (mset (map mset cs))"
    by (simp only: sum_mset_sum_list)
  finally show ?thesis by simp
qed

lemma mset_concat_merge:
  assumes "(A, B) \<in> set (pairs cs)"
  shows "mset (concat (merge_communities A B cs)) = mset (concat cs)"
proof -
  have sub: "{#A, B#} \<subseteq># mset cs"
    using assms by (rule pairs_mset)
  define rest where "rest = mset cs - {#A, B#}"
  have split: "mset cs = rest + {#A, B#}"
    unfolding rest_def using sub by (simp only: subset_mset.diff_add)
  have merged: "mset (merge_communities A B cs) = rest + {#A @ B#}"
    by (simp add: mset_merge_communities [OF assms] rest_def)
  show ?thesis
    unfolding mset_concat_sum merged split by simp
qed

lemma greedy_merge_mset:
  "mset (concat (greedy_merge U cs)) = mset (concat cs)"
proof (induction U cs rule: greedy_merge.induct)
  case (1 U cs)
  show ?case
  proof (cases "improving_merge U cs")
    case None
    then show ?thesis by (subst greedy_merge.simps) simp
  next
    case (Some p)
    then have "(fst p, snd p) \<in> set (pairs cs)"
      using improving_merge_pair [of U cs "fst p" "snd p"] by simp
    then have "mset (concat (merge_communities (fst p) (snd p) cs)) = mset (concat cs)"
      by (rule mset_concat_merge)
    then show ?thesis
      using "1.IH" Some by (subst greedy_merge.simps) simp
  qed
qed

lemma concat_singletons: "concat (map (\<lambda>n. [n]) ns) = ns"
  by (induction ns) simp_all

lemma greedy_communities_mset:
  "mset (concat (greedy_modularity_communities U)) = mset (unodes U)"
  by (simp add: greedy_modularity_communities_def greedy_merge_mset concat_singletons)

lemma greedy_communities_isolated:
  "isolated U n \<Longrightarrow> n \<in> set (unodes U) \<Longrightarrow> [n] \<in> set (greedy_modularity_communities U)"
  unfolding greedy_modularity_communities_def
  by (rule greedy_merge_keeps_isolated) auto


lemma community_pairs_keys:
  "map fst (concat (map (\<lambda>(i, c). map (\<lambda>n. (n, i)) c) (enumerate k cs))) = concat cs"
  by (induction cs arbitrary: k) (simp_all add: comp_def)

lemma community_map_member:
  assumes "distinct (concat cs)" and "i < length cs" and "n \<in> set (cs ! i)"
  shows "community_map cs n = Some i"
proof -
  let ?ps = "concat (map (\<lambda>(i, c). map (\<lambda>n. (n, i)) c) (enumerate 0 cs))"
  have keys: "distinct (map fst (rev ?ps))"
    using assms(1) by (simp add: rev_map [symmetric] community_pairs_keys)
  have "(i, cs ! i) \<in> set (enumerate 0 cs)"
    using assms(2) by (simp add: in_set_enumerate_eq)
  then have "(n, i) \<in> set ?ps"
    using assms(3) by force
  then have "(n, i) \<in> set (rev ?ps)"
    by simp
  with keys show ?thesis
    unfolding community_map_def by (simp only: map_of_eq_Some_iff)
qed

lemma distinct_concat_nth_disjoint:
  "distinct (concat cs) \<Longrightarrow> i < j \<Longrightarrow> j < length cs \<Longrightarrow> set (cs ! i) \<inter> set (cs ! j) = {}"
proof (induction cs arbitrary: i j)
  case Nil
  then show ?case by simp
next
  case (Cons c cs)
  from Cons.prems(2) obtain j' where j: "j = Suc j'"
    by (cases j) auto
  with Cons.prems(3) have j'_len: "j' < length cs" by simp
  show ?case
  proof (cases i)
    case 0
    have "cs ! j' \<in> set cs"
      using j'_len by simp
    then have "set (cs ! j') \<subseteq> set (concat cs)"
      by auto
    moreover have "set c \<inter> set (concat cs) = {}"
      using Cons.prems(1) by simp
    ultimately show ?thesis using 0 j by auto
  next
    case (Suc i')
    with Cons.prems(2) j have lt: "i' < j'" by simp
    have rest: "distinct (concat cs)" using Cons.prems(1) by simp
    have "set (cs ! i') \<inter> set (cs ! j') = {}"
      by (rule Cons.IH [OF rest lt j'_len])
    then show ?thesis using Suc j by simp
  qed
qed

lemma partition_unique_index:
  assumes "distinct (concat cs)" and "n \<in> set (concat cs)"
  shows "\<exists>!i. i < length cs \<and> n \<in> set (cs ! i)"
proof -
  from assms(2) obtain c where "c \<in> set cs" and "n \<in> set c"
    by auto
  then obtain i where i: "i < length cs" "n \<in> set (cs ! i)"
    by (auto simp: in_set_conv_nth)
  have "j = i" if j: "j < length cs" "n \<in> set (cs ! j)" for j
  proof (rule ccontr)
    assume "j \<noteq> i"
    then consider "i < j" | "j < i" by linarith
    then show False
    proof cases
      case 1
      from distinct_concat_nth_disjoint [OF assms(1) 1 j(1)] i(2) j(2) show False by auto
    next
      case 2
      from distinct_concat_nth_disjoint [OF assms(1) 2 i(1)] i(2) j(2) show False by auto
    qed
  qed
  with i show ?thesis by blast
qed

lemma isolated_to_undirected:
  "isolated (to_undirected G) n \<longleftrightarrow> (\<forall>e \<in> set (edges G). fst e \<noteq> n \<and> fst (snd e) \<noteq> n)"
  by (simp add: isolated_def to_undirected_def)

lemma node_ids_set_community_ids: "map fst (nodes (set_community_ids G m)) = map fst (nodes G)"
  by (simp add: nodes_set_community_ids comp_def case_prod_unfold)

lemma example_initial_graph_distinct: "distinct (map fst (nodes example_initial_graph))"
  by code_simp

lemma example_detection:
  "detect_and_store_communities example_initial_graph = (example_graph, example_communities)"
  by code_simp

section \<open>Community coverage\<close>

text \<open>
  Claim C5.  After community detection on a graph whose node ids are distinct
  (as the keys of the store are, and as \<open>distinct_node_ids_build\<close> shows for
  every graph the build makes), every node lies in exactly one of the detected
  communities and carries the index of that community as its \<open>community_id\<close>;
  the communities are duplicate-free, pairwise disjoint and their union is the
  node set; tagging changes no node id; and a node without incident edges is a
  community of its own.  The partition is the one of the greedy modularity
  model above.
\<close>

theorem community_detection_partitions_nodes:
  assumes "distinct (map fst (nodes G))"
    and "detect_and_store_communities G = (G', communities)"
  shows "(\<forall>n. has_node G n \<longrightarrow> (\<exists>!i. i < length communities \<and> n \<in> set (communities ! i)))
    \<and> (\<forall>n i. i < length communities \<and> n \<in> set (communities ! i) \<longrightarrow>
          has_node G' n \<and> map_option community_id (node_attrs G' n) = Some (Some i))
    \<and> (\<forall>c \<in> set communities. distinct c)
    \<and> (\<forall>i j. i < j \<and> j < length communities \<longrightarrow>
          set (communities ! i) \<inter> set (communities ! j) = {})
    \<and> (\<Union>c \<in> set communities. set c) = set (map fst (nodes G))
    \<and> map fst (nodes G') = map fst (nodes G)
    \<and> (\<forall>n. has_node G n \<and> (\<forall>e \<in> set (edges G). fst e \<noteq> n \<and> fst (snd e) \<noteq> n) \<longrightarrow>
          [n] \<in> set communities)"
proof -
  let ?U = "to_undirected G"
  have cs: "communities = greedy_modularity_communities ?U"
    and G': "G' = set_community_ids G (community_map communities)"
    using assms(2) by (auto simp: detect_and_store_communities_def Let_def)
  have unodes: "unodes ?U = map fst (nodes G)"
    by (simp add: to_undirected_def)
  have mset_eq: "mset (concat communities) = mset (map fst (nodes G))"
    unfolding cs using greedy_communities_mset [of ?U] by (simp only: unodes)
  have dist: "distinct (concat communities)"
    using mset_eq_imp_distinct_iff [OF mset_eq] assms(1) by blast
  have members: "set (concat communities) = set (map fst (nodes G))"
    using mset_eq by (rule mset_eq_setD)
  have ids: "map fst (nodes G') = map fst (nodes G)"
    unfolding G' by (rule node_ids_set_community_ids)
  have one: "\<forall>n. has_node G n \<longrightarrow> (\<exists>!i. i < length communities \<and> n \<in> set (communities ! i))"
  proof (intro allI impI)
    fix n
    assume "has_node G n"
    then have "n \<in> set (concat communities)"
      unfolding has_node_def members [symmetric] .
    with dist show "\<exists>!i. i < length communities \<and> n \<in> set (communities ! i)"
      by (rule partition_unique_index)
  qed
  have tagged: "\<forall>n i. i < length communities \<and> n \<in> set (communities ! i) \<longrightarrow>
          has_node G' n \<and> map_option community_id (node_attrs G' n) = Some (Some i)"
  proof (intro allI impI)
    fix n i
    assume that: "i < length communities \<and> n \<in> set (communities ! i)"
    from that have "communities ! i \<in> set communities"
      by simp
    with that have "n \<in> set (concat communities)"
      by auto
    then have node: "has_node G n"
      unfolding has_node_def members [symmetric] .
    then obtain d where d: "node_attrs G n = Some d"
      by (auto simp: has_node_iff_attrs)
    have "community_map communities n = Some i"
      using dist that by (simp add: community_map_member)
    with d have "map_option community_id (node_attrs G' n) = Some (Some i)"
      unfolding G' by (simp add: node_attrs_set_community_ids)
    moreover have "has_node G' n"
      using node ids by (simp add: has_node_def)
    ultimately show "has_node G' n \<and> map_option community_id (node_attrs G' n) = Some (Some i)"
      by simp
  qed
  have each: "\<forall>c \<in> set communities. distinct c"
    using dist by (auto simp: distinct_concat_iff)
  have disjoint: "\<forall>i j. i < j \<and> j < length communities \<longrightarrow>
          set (communities ! i) \<inter> set (communities ! j) = {}"
    using distinct_concat_nth_disjoint [OF dist] by blast
  have union: "(\<Union>c \<in> set communities. set c) = set (map fst (nodes G))"
    using members by simp
  have alone: "\<forall>n. has_node G n \<and> (\<forall>e \<in> set (edges G). fst e \<noteq> n \<and> fst (snd e) \<noteq> n) \<longrightarrow>
          [n] \<in> set communities"
  proof (intro allI impI)
    fix n
    assume that: "has_node G n \<and> (\<forall>e \<in> set (edges G). fst e \<noteq> n \<and> fst (snd e) \<noteq> n)"
    then have "isolated ?U n"
      by (simp add: isolated_to_undirected)
    moreover have "n \<in> set (unodes ?U)"
      using that by (simp add: unodes has_node_def)
    ultimately show "[n] \<in> set communities"
      unfolding cs by (rule greedy_communities_isolated)
  qed
  show ?thesis
    by (rule conjI [OF one conjI [OF tagged conjI [OF each conjI [OF disjoint
          conjI [OF union conjI [OF ids alone]]]]]])
qed


theorem community_detection_partitions_nodes_witness:
  "distinct (map fst (nodes example_initial_graph))
   \<and> detect_and_store_communities example_initial_graph = (example_graph, example_communities)
   \<and> map_option community_id (node_attrs example_graph ''playlist'') = Some (Some 0)
   \<and> set (example_communities ! 0) \<inter> set (example_communities ! 1) = {}
   \<and> [''dark_mode''] \<in> set example_communities"
proof -
  note inst = community_detection_partitions_nodes [OF example_initial_graph_distinct example_detection]
  have member: "0 < length example_communities \<and> ''playlist'' \<in> set (example_communities ! 0)"
    by (simp add: example_communities_def)
  have order: "(0::nat) < 1 \<and> 1 < length example_communities"
    by (simp add: example_communities_def)
  have alone: "has_node example_initial_graph ''dark_mode''
      \<and> (\<forall>e \<in> set (edges example_initial_graph). fst e \<noteq> ''dark_mode'' \<and> fst (snd e) \<noteq> ''dark_mode'')"
    by (simp add: example_initial_graph_def has_node_def)
  have tagged: "map_option community_id (node_attrs example_graph ''playlist'') = Some (Some 0)"
    using inst [THEN conjunct2, THEN conjunct1, rule_format, OF member] by (rule conjunct2)
  have disjoint: "set (example_communities ! 0) \<inter> set (example_communities ! 1) = {}"
    by (rule inst [THEN conjunct2, THEN conjunct2, THEN conjunct2, THEN conjunct1, rule_format, OF order])
  have single: "[''dark_mode''] \<in> set example_communities"
    by (rule inst [THEN conjunct2, THEN conjunct2, THEN conjunct2, THEN conjunct2, THEN conjunct2,
          THEN conjunct2, rule_format, OF alone])
  show ?thesis
    by (rule conjI [OF example_initial_graph_distinct conjI [OF example_detection
          conjI [OF tagged conjI [OF disjoint single]]]])
qed

section \<open>Facts about the index build and the whole build\<close>

lemma map_filter_value_member:
  "(n, v) \<in> set (List.map_filter (\<lambda>(n, d). map_option (Pair n) (nvalue d)) xs) \<longleftrightarrow>
     (\<exists>d. (n, d) \<in> set xs \<and> nvalue d = Some v)"
  by (induction xs) (auto simp: List.map_filter_simps split: option.splits)

lemma valued_nodes_member:
  "(n, v) \<in> set (valued_nodes G) \<longleftrightarrow> (\<exists>d. (n, d) \<in> set (nodes G) \<and> nvalue d = Some v)"
  unfolding valued_nodes_def by (rule map_filter_value_member)

lemma valued_nodes_empty:
  "valued_nodes G = [] \<longleftrightarrow> list_all (\<lambda>p. nvalue (snd p) = None) (nodes G)"
  by (auto simp: valued_nodes_def List.map_filter_def filter_empty_conv list_all_iff)

lemma IndexFlatL2_rows: "IndexFlatL2 embeddings = Some index \<Longrightarrow> vectors index = embeddings \<and> embeddings \<noteq> []"
  by (auto simp: IndexFlatL2_def split: list.splits if_splits)

lemma create_index_Some:
  assumes "create_entity_embeddings_index embed_content G = Some (index, ids)"
  shows "ids = map fst (valued_nodes G) \<and> valued_nodes G \<noteq> []
    \<and> embed_content (map snd (valued_nodes G)) = Inr (vectors index)
    \<and> IndexFlatL2 (vectors index) = Some index"
  using assms
  by (auto simp: create_entity_embeddings_index_def Let_def
      split: if_splits sum.splits option.splits dest: IndexFlatL2_rows)

lemma create_index_None:
  "create_entity_embeddings_index embed_content G = None \<longleftrightarrow>
     valued_nodes G = []
     \<or> (\<exists>e. embed_content (map snd (valued_nodes G)) = Inl e)
     \<or> (\<exists>embeddings. embed_content (map snd (valued_nodes G)) = Inr embeddings
            \<and> IndexFlatL2 embeddings = None)"
  by (auto simp: create_entity_embeddings_index_def Let_def
      split: if_splits sum.splits option.splits)

lemma map_result_total:
  "(\<And>x. x \<in> set xs \<Longrightarrow> \<exists>y. f x = Inr y) \<Longrightarrow> \<exists>ys. map_result f xs = Inr ys"
proof (induction xs)
  case Nil
  show ?case by simp
next
  case (Cons x xs)
  from Cons.prems obtain y where "f x = Inr y" by auto
  moreover from Cons obtain ys where "map_result f xs = Inr ys" by auto
  ultimately show ?case by simp
qed

lemma node_lookup_present: "has_node G n \<Longrightarrow> \<exists>d. node_lookup G n = Inr d"
  by (auto simp: node_lookup_def has_node_iff_attrs)

lemma summarize_community_total:
  "(\<And>n. n \<in> set c \<Longrightarrow> has_node G n) \<Longrightarrow> \<exists>text. summarize_community llm_model G c = Inr text"
proof -
  assume "\<And>n. n \<in> set c \<Longrightarrow> has_node G n"
  then have "\<exists>ds. map_result (node_lookup G) c = Inr ds"
    by (intro map_result_total node_lookup_present)
  then show ?thesis
    by (auto simp: summarize_community_def)
qed

lemma generate_community_summaries_total:
  assumes "\<And>c n. c \<in> set cs \<Longrightarrow> n \<in> set c \<Longrightarrow> has_node G n"
  shows "\<exists>summaries. generate_community_summaries llm_model G cs = Inr summaries"
proof -
  have "\<exists>texts. map_result (summarize_community llm_model G) cs = Inr texts"
    using assms by (intro map_result_total summarize_community_total)
  then show ?thesis
    by (auto simp: generate_community_summaries_def)
qed

lemma detected_members_are_nodes:
  assumes "detect_and_store_communities G0 = (G, cs)"
    and "c \<in> set cs" and "n \<in> set c"
  shows "has_node G n"
proof -
  have cs: "cs = greedy_modularity_communities (to_undirected G0)"
    and G: "G = set_community_ids G0 (community_map cs)"
    using assms(1) by (auto simp: detect_and_store_communities_def Let_def)
  have "set (concat cs) = set (unodes (to_undirected G0))"
    unfolding cs by (rule mset_eq_setD [OF greedy_communities_mset])
  moreover have "n \<in> set (concat cs)"
    using assms(2,3) by auto
  ultimately have "n \<in> set (map fst (nodes G0))"
    by (simp add: to_undirected_def)
  then show ?thesis
    unfolding G has_node_def node_ids_set_community_ids .
qed

lemma build_summaries_total:
  assumes "detect_and_store_communities G0 = (G, cs)"
  shows "\<exists>summaries. generate_community_summaries llm_model G cs = Inr summaries"
  using detected_members_are_nodes [OF assms] by (rule generate_community_summaries_total)

lemma build_knowledge_graph_cases:
  assumes "build_initial_graph extractor reviews_dir = Inr G0"
    and "detect_and_store_communities G0 = (G, cs)"
  shows "build_knowledge_graph extractor llm_model embed_content reviews_dir =
     (if number_of_nodes G0 = 0 then Inr None
      else case create_entity_embeddings_index embed_content G of
             None \<Rightarrow> Inr None
           | Some (faiss_index, faiss_node_ids) \<Rightarrow>
               Inr (Some \<lparr>graph_pkl = G,
                          community_summaries_json =
                            json_dump_summaries (projr (generate_community_summaries llm_model G cs)),
                          entity_embeddings_faiss = faiss_index,
                          faiss_node_ids_json = faiss_node_ids\<rparr>))"
proof -
  obtain summaries where "generate_community_summaries llm_model G cs = Inr summaries"
    using build_summaries_total [OF assms(2)] by blast
  then show ?thesis
    using assms by (simp add: build_knowledge_graph_def Let_def split: option.splits)
qed

lemma build_knowledge_graph_raises:
  "build_initial_graph extractor reviews_dir = Inl e \<Longrightarrow>
     build_knowledge_graph extractor llm_model embed_content reviews_dir = Inl e"
  by (simp add: build_knowledge_graph_def)

lemma no_nodes_no_index:
  assumes "detect_and_store_communities G0 = (G, cs)" and "number_of_nodes G0 = 0"
  shows "create_entity_embeddings_index embed_content G = None"
proof -
  have "nodes G = []"
    using assms by (auto simp: detect_and_store_communities_def Let_def set_community_ids_def
        number_of_nodes_def)
  then show ?thesis
    by (simp add: create_entity_embeddings_index_def valued_nodes_def List.map_filter_def)
qed

section \<open>Fatal build failures\<close>

text \<open>
  Claim C8, as amended.  Index construction returns its "nothing to index"
  signal \<open>None\<close> when no node has a value text, when the embedding backend
  raises and when the array or the index cannot be built from what the backend
  returned; an index it does return is never empty.  When step 1 of the build
  returns, the whole build reports failure (\<open>Inr None\<close>, nothing persisted)
  exactly when index construction on the tagged graph gives that signal, and
  it raises nothing; the early return for a graph without nodes is covered by
  the equivalence, since such a graph has no value text either.  The index step
  is the only step on which the build reports failure, but not the only fatal
  one: an exception of step 1 escapes the build, also with nothing persisted.
  Step 1 returns when every parsed answer has all the keys the loop reads.
\<close>

theorem index_build_is_sole_reported_failure:
  "(list_all (\<lambda>p. nvalue (snd p) = None) (nodes H) \<longrightarrow>
      create_entity_embeddings_index embed_content H = None)
   \<and> (embed_content (map snd (valued_nodes H)) = Inl e \<longrightarrow>
      create_entity_embeddings_index embed_content H = None)
   \<and> (embed_content (map snd (valued_nodes H)) = Inr embeddings \<and> IndexFlatL2 embeddings = None \<longrightarrow>
      create_entity_embeddings_index embed_content H = None)
   \<and> (create_entity_embeddings_index embed_content H = Some (index, ids) \<longrightarrow>
      vectors index \<noteq> [] \<and> ids \<noteq> [])
   \<and> (build_initial_graph extractor reviews_dir = Inr built \<longrightarrow>
        (build_knowledge_graph extractor llm_model embed_content reviews_dir = Inr None \<longleftrightarrow>
           create_entity_embeddings_index embed_content (fst (detect_and_store_communities built)) = None)
        \<and> build_knowledge_graph extractor llm_model embed_content reviews_dir \<noteq> Inl err)
   \<and> (build_initial_graph extractor reviews_dir = Inl err \<longrightarrow>
        build_knowledge_graph extractor llm_model embed_content reviews_dir = Inl err)
   \<and> (all_well_formed extractor (review_files reviews_dir) \<longrightarrow>
        build_initial_graph extractor reviews_dir \<noteq> Inl err)"
proof -
  have a: "list_all (\<lambda>p. nvalue (snd p) = None) (nodes H) \<longrightarrow>
      create_entity_embeddings_index embed_content H = None"
    by (simp add: create_index_None valued_nodes_empty)
  have b: "embed_content (map snd (valued_nodes H)) = Inl e \<longrightarrow>
      create_entity_embeddings_index embed_content H = None"
    by (auto simp: create_index_None)
  have c: "embed_content (map snd (valued_nodes H)) = Inr embeddings \<and> IndexFlatL2 embeddings = None \<longrightarrow>
      create_entity_embeddings_index embed_content H = None"
    by (auto simp: create_index_None)
  have d: "create_entity_embeddings_index embed_content H = Some (index, ids) \<longrightarrow>
      vectors index \<noteq> [] \<and> ids \<noteq> []"
    using IndexFlatL2_rows [of "vectors index" index]
    by (auto dest!: create_index_Some)
  have e: "build_initial_graph extractor reviews_dir = Inr built \<longrightarrow>
        (build_knowledge_graph extractor llm_model embed_content reviews_dir = Inr None \<longleftrightarrow>
           create_entity_embeddings_index embed_content (fst (detect_and_store_communities built)) = None)
        \<and> build_knowledge_graph extractor llm_model embed_content reviews_dir \<noteq> Inl err"
  proof
    assume initial: "build_initial_graph extractor reviews_dir = Inr built"
    obtain G cs where run: "detect_and_store_communities built = (G, cs)"
      by (cases "detect_and_store_communities built")
    note build = build_knowledge_graph_cases [OF initial run, of llm_model embed_content]
    have "build_knowledge_graph extractor llm_model embed_content reviews_dir = Inr None \<longleftrightarrow>
           create_entity_embeddings_index embed_content (fst (detect_and_store_communities built)) = None"
      unfolding build run
      using no_nodes_no_index [OF run, of embed_content]
      by (auto split: option.splits)
    moreover have "build_knowledge_graph extractor llm_model embed_content reviews_dir \<noteq> Inl err"
      unfolding build by (auto split: option.splits)
    ultimately show "(build_knowledge_graph extractor llm_model embed_content reviews_dir = Inr None \<longleftrightarrow>
           create_entity_embeddings_index embed_content (fst (detect_and_store_communities built)) = None)
        \<and> build_knowledge_graph extractor llm_model embed_content reviews_dir \<noteq> Inl err"
      by (rule conjI)
  qed
  have f: "build_initial_graph extractor reviews_dir = Inl err \<longrightarrow>
        build_knowledge_graph extractor llm_model embed_content reviews_dir = Inl err"
    by (simp add: build_knowledge_graph_raises)
  have g: "all_well_formed extractor (review_files reviews_dir) \<longrightarrow>
        build_initial_graph extractor reviews_dir \<noteq> Inl err"
    using build_initial_graph_total [of extractor reviews_dir] by auto
  show ?thesis
    by (rule conjI [OF a conjI [OF b conjI [OF c conjI [OF d conjI [OF e conjI [OF f g]]]]]])
qed

theorem index_build_is_sole_reported_failure_witness:
  "list_all (\<lambda>p. nvalue (snd p) = None) (nodes valueless_graph)
   \<and> create_entity_embeddings_index example_embedder valueless_graph = None
   \<and> create_entity_embeddings_index failing_embedder example_graph = None
   \<and> build_initial_graph example_extractor example_reviews = Inr example_initial_graph
   \<and> build_knowledge_graph example_extractor example_llm failing_embedder example_reviews = Inr None
   \<and> build_knowledge_graph example_extractor example_llm failing_embedder example_reviews
       \<noteq> Inl (KeyError ''value'')
   \<and> IndexFlatL2 [[1], [1, 2 :: nat]] = None
   \<and> create_entity_embeddings_index ragged_embedder example_graph = None
   \<and> create_entity_embeddings_index example_embedder example_graph
        = Some (entity_embeddings_faiss example_index_files, faiss_node_ids_json example_index_files)
   \<and> vectors (entity_embeddings_faiss example_index_files) \<noteq> []
   \<and> faiss_node_ids_json example_index_files \<noteq> []
   \<and> build_initial_graph malformed_extractor example_reviews = Inl (KeyError ''value'')
   \<and> build_knowledge_graph malformed_extractor example_llm example_embedder example_reviews
       = Inl (KeyError ''value'')
   \<and> all_well_formed example_extractor (review_files example_reviews)
   \<and> build_initial_graph example_extractor example_reviews \<noteq> Inl (KeyError ''value'')"
proof -
  let ?index = "entity_embeddings_faiss example_index_files"
  let ?ids = "faiss_node_ids_json example_index_files"
  let ?err = "KeyError ''value''"
  have h1: "list_all (\<lambda>p. nvalue (snd p) = None) (nodes valueless_graph)"
    by code_simp
  have c1: "create_entity_embeddings_index example_embedder valueless_graph = None"
    using index_build_is_sole_reported_failure
      [where H = valueless_graph and embed_content = example_embedder, THEN conjunct1] h1
    by (rule mp)
  note failing = index_build_is_sole_reported_failure
      [where H = example_graph and embed_content = failing_embedder and e = "''quota exceeded''"
         and extractor = example_extractor and reviews_dir = example_reviews
         and built = example_initial_graph and llm_model = example_llm and err = ?err]
  have h2: "failing_embedder (map snd (valued_nodes example_graph)) = Inl ''quota exceeded''"
    by (simp add: failing_embedder_def)
  have c2: "create_entity_embeddings_index failing_embedder example_graph = None"
    using failing [THEN conjunct2, THEN conjunct1] h2 by (rule mp)
  have tagged: "fst (detect_and_store_communities example_initial_graph) = example_graph"
    by (simp add: example_detection)
  note reported = failing [THEN conjunct2, THEN conjunct2, THEN conjunct2, THEN conjunct2,
      THEN conjunct1, THEN mp, OF example_initial_build, unfolded tagged]
  have c3: "build_knowledge_graph example_extractor example_llm failing_embedder example_reviews = Inr None"
    using reported [THEN conjunct1] c2 by (rule iffD2)
  note c4 = reported [THEN conjunct2]
  have h5: "ragged_embedder (map snd (valued_nodes example_graph)) = Inr [[1], [1, 2]]
      \<and> IndexFlatL2 [[1], [1, 2 :: nat]] = None"
    by code_simp
  have c5: "create_entity_embeddings_index ragged_embedder example_graph = None"
    using index_build_is_sole_reported_failure
      [where H = example_graph and embed_content = ragged_embedder and embeddings = "[[1], [1, 2]]",
       THEN conjunct2, THEN conjunct2, THEN conjunct1] h5 by (rule mp)
  have h6: "create_entity_embeddings_index example_embedder example_graph = Some (?index, ?ids)"
    by code_simp
  have c6: "vectors ?index \<noteq> [] \<and> ?ids \<noteq> []"
    using index_build_is_sole_reported_failure
      [where H = example_graph and embed_content = example_embedder and index = ?index and ids = ?ids,
       THEN conjunct2, THEN conjunct2, THEN conjunct2, THEN conjunct1] h6 by (rule mp)
  have h7: "build_initial_graph malformed_extractor example_reviews = Inl ?err"
    by code_simp
  have c7: "build_knowledge_graph malformed_extractor example_llm example_embedder example_reviews
       = Inl ?err"
    using index_build_is_sole_reported_failure
      [where extractor = malformed_extractor and reviews_dir = example_reviews and err = ?err
         and llm_model = example_llm and embed_content = example_embedder,
       THEN conjunct2, THEN conjunct2, THEN conjunct2, THEN conjunct2, THEN conjunct2,
       THEN conjunct1] h7 by (rule mp)
  have h8: "all_well_formed example_extractor (review_files example_reviews)"
    by code_simp
  have c8: "build_initial_graph example_extractor example_reviews \<noteq> Inl ?err"
    using failing [THEN conjunct2, THEN conjunct2, THEN conjunct2, THEN conjunct2, THEN conjunct2,
       THEN conjunct2] h8 by (rule mp)
  show ?thesis
    by (rule conjI [OF h1 conjI [OF c1 conjI [OF c2 conjI [OF example_initial_build
          conjI [OF c3 conjI [OF c4 conjI [OF conjunct2 [OF h5] conjI [OF c5 conjI [OF h6
          conjI [OF conjunct1 [OF c6] conjI [OF conjunct2 [OF c6] conjI [OF h7 conjI [OF c7
          conjI [OF h8 c8]]]]]]]]]]]]]])
qed

text \<open>
  The claim as written (the index step is the sole fatal failure of the build)
  fails on a parsed answer whose second entity has no key \<open>value\<close>: the loop
  of step 1 raises \<open>KeyError\<close> after it has added the first entity, the
  exception escapes the build, and neither index construction nor any backend
  error is involved.
\<close>

theorem malformed_extraction_counterexample:
  "malformed_extractor ''crash on open''
     = Some \<lparr>entities = [entity_item ''dark_mode'' ''FEATURE_REQUEST'' ''Dark mode'',
                         JObject [(''id'', ''bug1''), (''type'', ''BUG_REPORT'')]],
             relationships = []\<rparr>
   \<and> subscript (JObject [(''id'', ''bug1''), (''type'', ''BUG_REPORT'')]) ''value''
       = Inl (KeyError ''value'')
   \<and> process_review malformed_extractor (''review_1.txt'', ''crash on open'') MultiDiGraph
       = Inl (KeyError ''value'')
   \<and> build_knowledge_graph malformed_extractor example_llm example_embedder example_reviews
       = Inl (KeyError ''value'')
   \<and> build_knowledge_graph malformed_extractor example_llm example_embedder example_reviews
       \<noteq> Inr None"
  by code_simp

lemma build_persists_index_pair:
  assumes "build_knowledge_graph extractor llm_model embed_content reviews_dir = Inr (Some files)"
  shows "distinct (map fst (nodes (graph_pkl files)))
    \<and> create_entity_embeddings_index embed_content (graph_pkl files)
         = Some (entity_embeddings_faiss files, faiss_node_ids_json files)"
proof -
  from graph_pkl_build [OF assms] obtain G0
    where initial: "build_initial_graph extractor reviews_dir = Inr G0"
    by blast
  obtain G cs where run: "detect_and_store_communities G0 = (G, cs)"
    by (cases "detect_and_store_communities G0")
  have G: "G = set_community_ids G0 (community_map cs)"
    using run by (auto simp: detect_and_store_communities_def Let_def)
  have "distinct (map fst (nodes G))"
    unfolding G node_ids_set_community_ids by (rule distinct_node_ids_build [OF initial])
  moreover have "graph_pkl files = G
      \<and> create_entity_embeddings_index embed_content G
           = Some (entity_embeddings_faiss files, faiss_node_ids_json files)"
    using assms unfolding build_knowledge_graph_cases [OF initial run]
    by (auto split: if_splits option.splits)
  ultimately show ?thesis by simp
qed

lemma valued_node_attrs:
  assumes "distinct (map fst (nodes G))" and "i < length (valued_nodes G)"
  shows "\<exists>d. node_attrs G (fst (valued_nodes G ! i)) = Some d
           \<and> nvalue d = Some (snd (valued_nodes G ! i))"
proof -
  have "(fst (valued_nodes G ! i), snd (valued_nodes G ! i)) \<in> set (valued_nodes G)"
    using assms(2) by simp
  then obtain d where d: "(fst (valued_nodes G ! i), d) \<in> set (nodes G)"
      "nvalue d = Some (snd (valued_nodes G ! i))"
    unfolding valued_nodes_member by blast
  from d(1) assms(1) have "node_attrs G (fst (valued_nodes G ! i)) = Some d"
    by (simp add: node_attrs_def)
  with d(2) show ?thesis by blast
qed

lemma example_embedder_pointwise:
  "\<forall>texts. example_embedder texts = Inr (map (\<lambda>t. [length t, 1]) texts)"
  by (simp add: example_embedder_def)

lemma example_index:
  "create_entity_embeddings_index example_embedder example_graph
     = Some (entity_embeddings_faiss example_index_files, faiss_node_ids_json example_index_files)"
  by code_simp

lemma example_graph_distinct: "distinct (map fst (nodes example_graph))"
  by code_simp

section \<open>Alignment of the index and the id array\<close>

text \<open>
  Claim C3.  When index construction succeeds on a graph with distinct node
  ids, the id array lists, in node order, the nodes that have a value; the
  batch sent to the embedding backend is the list of their values in the same
  order, and the rows of the index are the backend's answer in its order.  So
  position \<open>i\<close> of the id array names the node whose value was at position \<open>i\<close>
  of the batch; when the backend answered that batch text by text, row \<open>i\<close>
  is the embedding of the value of node \<open>ids ! i\<close> and the index has as many
  rows as the array has ids.  Both come from one list, \<open>valued_nodes\<close>,
  and a successful build persists exactly the pair that index construction
  returned for the persisted graph.
\<close>

theorem embedding_rows_aligned_with_ids:
  assumes "distinct (map fst (nodes G))"
    and "create_entity_embeddings_index embed_content G = Some (index, ids)"
  shows "ids = map fst (valued_nodes G)
    \<and> embed_content (map snd (valued_nodes G)) = Inr (vectors index)
    \<and> (\<forall>i < length ids. \<exists>d. node_attrs G (ids ! i) = Some d
          \<and> nvalue d = Some (map snd (valued_nodes G) ! i))
    \<and> (embed_content (map snd (valued_nodes G)) = Inr (map embed_one (map snd (valued_nodes G))) \<longrightarrow>
          length (vectors index) = length ids
          \<and> (\<forall>i < length ids. \<exists>d v. node_attrs G (ids ! i) = Some d \<and> nvalue d = Some v
                \<and> vectors index ! i = embed_one v))
    \<and> (build_knowledge_graph extractor llm_model embed_content reviews_dir = Inr (Some files) \<longrightarrow>
          distinct (map fst (nodes (graph_pkl files)))
          \<and> create_entity_embeddings_index embed_content (graph_pkl files)
               = Some (entity_embeddings_faiss files, faiss_node_ids_json files))"
proof -
  note made = create_index_Some [OF assms(2)]
  have ids: "ids = map fst (valued_nodes G)"
    using made by simp
  have batch: "embed_content (map snd (valued_nodes G)) = Inr (vectors index)"
    using made by simp
  have attrs: "\<forall>i < length ids. \<exists>d. node_attrs G (ids ! i) = Some d
          \<and> nvalue d = Some (map snd (valued_nodes G) ! i)"
    using valued_node_attrs [OF assms(1)] by (simp add: ids)
  have pointwise: "embed_content (map snd (valued_nodes G)) = Inr (map embed_one (map snd (valued_nodes G))) \<longrightarrow>
          length (vectors index) = length ids
          \<and> (\<forall>i < length ids. \<exists>d v. node_attrs G (ids ! i) = Some d \<and> nvalue d = Some v
                \<and> vectors index ! i = embed_one v)"
  proof
    assume "embed_content (map snd (valued_nodes G)) = Inr (map embed_one (map snd (valued_nodes G)))"
    with batch have rows: "vectors index = map embed_one (map snd (valued_nodes G))"
      by simp
    have "vectors index ! i = embed_one (map snd (valued_nodes G) ! i)" if "i < length ids" for i
      using that unfolding rows ids by simp
    with attrs have "\<forall>i < length ids. \<exists>d v. node_attrs G (ids ! i) = Some d \<and> nvalue d = Some v
                \<and> vectors index ! i = embed_one v"
      by blast
    moreover have "length (vectors index) = length ids"
      unfolding rows ids by simp
    ultimately show "length (vectors index) = length ids
          \<and> (\<forall>i < length ids. \<exists>d v. node_attrs G (ids ! i) = Some d \<and> nvalue d = Some v
                \<and> vectors index ! i = embed_one v)"
      by (rule conjI [rotated])
  qed
  have persisted: "build_knowledge_graph extractor llm_model embed_content reviews_dir = Inr (Some files) \<longrightarrow>
          distinct (map fst (nodes (graph_pkl files)))
          \<and> create_entity_embeddings_index embed_content (graph_pkl files)
               = Some (entity_embeddings_faiss files, faiss_node_ids_json files)"
    by (rule impI) (rule build_persists_index_pair)
  show ?thesis
    by (rule conjI [OF ids conjI [OF batch conjI [OF attrs conjI [OF pointwise persisted]]]])
qed

theorem embedding_rows_aligned_with_ids_witness:
  "distinct (map fst (nodes example_graph))
   \<and> create_entity_embeddings_index example_embedder example_graph
        = Some (entity_embeddings_faiss example_index_files, faiss_node_ids_json example_index_files)
   \<and> build_knowledge_graph example_extractor example_llm example_embedder example_reviews
        = Inr (Some example_index_files)
   \<and> faiss_node_ids_json example_index_files = map fst (valued_nodes example_graph)
   \<and> example_embedder (map snd (valued_nodes example_graph))
        = Inr (vectors (entity_embeddings_faiss example_index_files))
   \<and> length (vectors (entity_embeddings_faiss example_index_files))
        = length (faiss_node_ids_json example_index_files)
   \<and> create_entity_embeddings_index example_embedder (graph_pkl example_index_files)
        = Some (entity_embeddings_faiss example_index_files, faiss_node_ids_json example_index_files)"
proof -
  note inst = embedding_rows_aligned_with_ids [OF example_graph_distinct example_index,
      of "\<lambda>t. [length t, 1]" example_extractor example_llm example_reviews example_index_files]
  have c1: "faiss_node_ids_json example_index_files = map fst (valued_nodes example_graph)"
    by (rule inst [THEN conjunct1])
  have c2: "example_embedder (map snd (valued_nodes example_graph))
        = Inr (vectors (entity_embeddings_faiss example_index_files))"
    by (rule inst [THEN conjunct2, THEN conjunct1])
  have c3: "length (vectors (entity_embeddings_faiss example_index_files))
        = length (faiss_node_ids_json example_index_files)"
    using inst [THEN conjunct2, THEN conjunct2, THEN conjunct2, THEN conjunct1, THEN mp,
        OF example_embedder_pointwise [THEN spec]] by (rule conjunct1)
  have c4: "create_entity_embeddings_index example_embedder (graph_pkl example_index_files)
        = Some (entity_embeddings_faiss example_index_files, faiss_node_ids_json example_index_files)"
    using inst [THEN conjunct2, THEN conjunct2, THEN conjunct2, THEN conjunct2, THEN mp,
        OF example_build] by (rule conjunct2)
  show ?thesis
    by (rule conjI [OF example_graph_distinct conjI [OF example_index conjI [OF example_build
          conjI [OF c1 conjI [OF c2 conjI [OF c3 c4]]]]]])
qed

section \<open>Facts about context augmentation\<close>

lemma ordered_keys_fold: "ordered_keys xs = fold add_key xs []"
  by (simp add: ordered_keys_def add_key_def [abs_def])

lemma fold_add_key_distinct: "distinct acc \<Longrightarrow> distinct (fold add_key xs acc)"
  by (induction xs arbitrary: acc) (simp_all add: add_key_def)

lemma fold_add_key_set: "set (fold add_key xs acc) = set xs \<union> set acc"
  by (induction xs arbitrary: acc) (auto simp: add_key_def)

lemma distinct_ordered_keys: "distinct (ordered_keys xs)"
  by (simp add: ordered_keys_fold fold_add_key_distinct)

lemma set_ordered_keys: "set (ordered_keys xs) = set xs"
  by (simp add: ordered_keys_fold fold_add_key_set)

lemma add_community_context_keys:
  assumes "global_community ctx = map (community_fragment S) ks" and "seen_communities ctx = set ks"
  shows "global_community (add_community_context S d ctx)
           = map (community_fragment S) (case community_id d of None \<Rightarrow> ks | Some c \<Rightarrow> add_key c ks)
    \<and> seen_communities (add_community_context S d ctx)
           = set (case community_id d of None \<Rightarrow> ks | Some c \<Rightarrow> add_key c ks)
    \<and> source_text (add_community_context S d ctx) = source_text ctx
    \<and> seen_source_files (add_community_context S d ctx) = seen_source_files ctx"
  using assms by (auto simp: add_community_context_def add_key_def split: option.splits)

lemma add_source_context_keys:
  assumes "source_text ctx = map (excerpt_of D) fs" and "seen_source_files ctx = set fs"
  shows "source_text (add_source_context D d ctx)
           = map (excerpt_of D)
               (case source_file d of
                  None \<Rightarrow> fs
                | Some f \<Rightarrow> if f \<noteq> [] \<and> map_of D f \<noteq> None then add_key f fs else fs)
    \<and> seen_source_files (add_source_context D d ctx)
           = set (case source_file d of
                    None \<Rightarrow> fs
                  | Some f \<Rightarrow> if f \<noteq> [] \<and> map_of D f \<noteq> None then add_key f fs else fs)
    \<and> global_community (add_source_context D d ctx) = global_community ctx
    \<and> seen_communities (add_source_context D d ctx) = seen_communities ctx"
  using assms by (auto simp: add_source_context_def add_key_def excerpt_of_def split: option.splits)

lemma augment_context_keys:
  assumes "augment_context G S D entries ctx = Inr ctx'"
    and "global_community ctx = map (community_fragment S) ks"
    and "seen_communities ctx = set ks"
    and "source_text ctx = map (excerpt_of D) fs"
    and "seen_source_files ctx = set fs"
  shows "global_community ctx'
           = map (community_fragment S) (fold add_key (List.map_filter (node_community G) entries) ks)
    \<and> source_text ctx'
           = map (excerpt_of D) (fold add_key (List.map_filter (readable_source G D) entries) fs)"
  using assms
proof (induction entries arbitrary: ctx ks fs)
  case Nil
  then show ?case by (simp add: List.map_filter_simps)
next
  case (Cons n entries)
  from Cons.prems(1) obtain d fragment where d: "node_lookup G n = Inr d"
    and "local_fragment G n d = Inr fragment"
    and rest: "augment_context G S D entries
                 (add_source_context D d (add_community_context S d
                    (ctx\<lparr>local_graph := local_graph ctx @ [fragment]\<rparr>))) = Inr ctx'"
    by (auto split: sum.splits)
  let ?c0 = "ctx\<lparr>local_graph := local_graph ctx @ [fragment]\<rparr>"
  let ?c1 = "add_community_context S d ?c0"
  let ?c2 = "add_source_context D d ?c1"
  let ?ks = "case community_id d of None \<Rightarrow> ks | Some c \<Rightarrow> add_key c ks"
  let ?fs = "case source_file d of
               None \<Rightarrow> fs
             | Some f \<Rightarrow> if f \<noteq> [] \<and> map_of D f \<noteq> None then add_key f fs else fs"
  have attrs: "node_attrs G n = Some d"
    using d by (auto simp: node_lookup_def split: option.splits)
  have k0: "global_community ?c0 = map (community_fragment S) ks" "seen_communities ?c0 = set ks"
    using Cons.prems(2,3) by simp_all
  have f0: "source_text ?c0 = map (excerpt_of D) fs" "seen_source_files ?c0 = set fs"
    using Cons.prems(4,5) by simp_all
  note s1 = add_community_context_keys [OF k0, of d]
  have f1: "source_text ?c1 = map (excerpt_of D) fs" "seen_source_files ?c1 = set fs"
    using s1 f0 by simp_all
  note s2 = add_source_context_keys [OF f1, of d]
  have k2: "global_community ?c2 = map (community_fragment S) ?ks" "seen_communities ?c2 = set ?ks"
    using s1 s2 by simp_all
  have f2: "source_text ?c2 = map (excerpt_of D) ?fs" "seen_source_files ?c2 = set ?fs"
    using s2 by simp_all
  note ih = Cons.IH [OF rest k2 f2]
  have ck: "fold add_key (List.map_filter (node_community G) (n # entries)) ks
          = fold add_key (List.map_filter (node_community G) entries) ?ks"
    by (simp add: List.map_filter_simps node_community_def attrs split: option.splits)
  have fk: "fold add_key (List.map_filter (readable_source G D) (n # entries)) fs
          = fold add_key (List.map_filter (readable_source G D) entries) ?fs"
    by (simp add: List.map_filter_simps readable_source_def source_file_of_def attrs split: option.splits)
  show ?case
    unfolding ck fk by (rule ih)
qed

lemma example_augment:
  "augment_context example_graph (community_summaries_json example_index_files)
     example_reviews example_entry_points empty_context = Inr example_context"
  by code_simp

lemma example_keys:
  "List.map_filter (node_community example_graph) example_entry_points = [0, 0, 1, 0]
   \<and> List.map_filter (readable_source example_graph example_reviews) example_entry_points
       = [''review_2.txt'', ''review_2.txt'', ''review_2.txt'', ''review_2.txt'']"
  by code_simp

section \<open>Deduplication within one query\<close>

text \<open>
  Claim C6.  When the loop over the entry points of one call finishes, the
  community-context list holds one fragment for each distinct community id of
  the entry points, in order of first occurrence, and the source-text list holds
  one excerpt for each distinct source file of the entry points that is a
  non-empty name present in the reviews directory, in order of first
  occurrence.  However many entry points share a community id or a source file,
  it contributes one fragment.
\<close>

theorem context_is_deduplicated:
  assumes "augment_context G summaries reviews_dir entry_point_node_ids empty_context = Inr ctx"
  shows "global_community ctx
           = map (community_fragment summaries)
               (ordered_keys (List.map_filter (node_community G) entry_point_node_ids))
    \<and> source_text ctx
           = map (excerpt_of reviews_dir)
               (ordered_keys (List.map_filter (readable_source G reviews_dir) entry_point_node_ids))
    \<and> distinct (ordered_keys (List.map_filter (node_community G) entry_point_node_ids))
    \<and> distinct (ordered_keys (List.map_filter (readable_source G reviews_dir) entry_point_node_ids))
    \<and> length (global_community ctx)
           = card (set (List.map_filter (node_community G) entry_point_node_ids))
    \<and> length (source_text ctx)
           = card (set (List.map_filter (readable_source G reviews_dir) entry_point_node_ids))"
proof -
  have start: "global_community empty_context = map (community_fragment summaries) []"
    "seen_communities empty_context = set []"
    "source_text empty_context = map (excerpt_of reviews_dir) []"
    "seen_source_files empty_context = set []"
    by (simp_all add: empty_context_def)
  note lists = augment_context_keys [OF assms start, folded ordered_keys_fold]
  have count: "length (ordered_keys xs) = card (set xs)" for xs :: "'a list"
    using distinct_card [OF distinct_ordered_keys, of xs] by (simp add: set_ordered_keys)
  show ?thesis
    using lists by (simp add: distinct_ordered_keys count)
qed

theorem context_is_deduplicated_witness:
  "augment_context example_graph (community_summaries_json example_index_files)
     example_reviews example_entry_points empty_context = Inr example_context
   \<and> global_community example_context
        = [community_fragment (community_summaries_json example_index_files) 0,
           community_fragment (community_summaries_json example_index_files) 1]
   \<and> source_text example_context = [excerpt_of example_reviews ''review_2.txt'']
   \<and> length (local_graph example_context) = 4"
proof -
  note inst = context_is_deduplicated [OF example_augment]
  have k: "ordered_keys [0, 0, 1, 0 :: nat] = [0, 1]"
    by code_simp
  have f: "ordered_keys [''review_2.txt'', ''review_2.txt'', ''review_2.txt'', ''review_2.txt'']
      = [''review_2.txt'']"
    by code_simp
  have c1: "global_community example_context
        = [community_fragment (community_summaries_json example_index_files) 0,
           community_fragment (community_summaries_json example_index_files) 1]"
    using inst [THEN conjunct1, unfolded example_keys [THEN conjunct1] k] by simp
  have c2: "source_text example_context = [excerpt_of example_reviews ''review_2.txt'']"
    using inst [THEN conjunct2, THEN conjunct1, unfolded example_keys [THEN conjunct2] f] by simp
  have c3: "length (local_graph example_context) = 4"
    by code_simp
  show ?thesis
    by (rule conjI [OF example_augment conjI [OF c1 conjI [OF c2 c3]]])
qed

section \<open>Facts about local-context fragments\<close>

lemma set_neighbors: "set (neighbors G n) = successors G n"
  by (simp add: neighbors_def set_ordered_keys successors_def)

lemma successors_iff: "t \<in> successors G n \<longleftrightarrow> (\<exists>ty. (n, t, ty) \<in> set (edges G))"
  unfolding successors_def by force

lemma map_result_Inr:
  "map_result f xs = Inr ys \<Longrightarrow> length ys = length xs \<and> (\<forall>i < length xs. f (xs ! i) = Inr (ys ! i))"
proof (induction xs arbitrary: ys)
  case Nil
  then show ?case by simp
next
  case (Cons x xs)
  from Cons.prems obtain y ys' where y: "f x = Inr y" and ys': "map_result f xs = Inr ys'"
    and ys: "ys = y # ys'"
    by (auto split: sum.splits)
  from Cons.IH [OF ys'] y ys show ?case
    by (auto simp: nth_Cons')
qed

lemma sublist_join: "x \<in> set xs \<Longrightarrow> sublist x (join sep xs)"
proof (induction sep xs rule: join.induct)
  case (1 sep)
  then show ?case by simp
next
  case (2 sep y)
  then show ?case by simp
next
  case (3 sep y z zs)
  show ?case
  proof (cases "x = y")
    case True
    then show ?thesis by simp
  next
    case False
    with 3 have "sublist x (join sep (z # zs))" by simp
    then obtain p s where "join sep (z # zs) = p @ x @ s"
      by (auto simp: sublist_def)
    then have "join sep (y # z # zs) = (y @ sep @ p) @ x @ s"
      by simp
    then show ?thesis
      unfolding sublist_def by blast
  qed
qed

lemma local_fragment_Inr:
  assumes "local_fragment G n d = Inr fragment"
  obtains neighbor_data where "map_result (node_lookup G) (neighbors G n) = Inr neighbor_data"
    and "fragment = entity_header d @ ''\<newline>''
           @ join ''\<newline>'' (if neighbor_data = [] then [no_relationships]
                               else map neighbor_line neighbor_data)"
  using assms
  by (auto simp: local_fragment_def entity_header_def no_relationships_def Let_def split: sum.splits)

lemma augment_context_local:
  assumes "augment_context G S D entries ctx = Inr ctx'"
  shows "\<exists>fragments. local_graph ctx' = local_graph ctx @ fragments
           \<and> length fragments = length entries
           \<and> (\<forall>i < length entries. \<exists>d. node_attrs G (entries ! i) = Some d
                 \<and> local_fragment G (entries ! i) d = Inr (fragments ! i))"
  using assms
proof (induction entries arbitrary: ctx)
  case Nil
  then show ?case by simp
next
  case (Cons n entries)
  from Cons.prems obtain d fragment where d: "node_lookup G n = Inr d"
    and fragment: "local_fragment G n d = Inr fragment"
    and rest: "augment_context G S D entries
                 (add_source_context D d (add_community_context S d
                    (ctx\<lparr>local_graph := local_graph ctx @ [fragment]\<rparr>))) = Inr ctx'"
    by (auto split: sum.splits)
  have attrs: "node_attrs G n = Some d"
    using d by (auto simp: node_lookup_def split: option.splits)
  have kept: "local_graph (add_source_context D d (add_community_context S d
                    (ctx\<lparr>local_graph := local_graph ctx @ [fragment]\<rparr>)))
                = local_graph ctx @ [fragment]"
    by (simp add: add_source_context_def add_community_context_def split: option.splits)
  from Cons.IH [OF rest] obtain fragments
    where fs: "local_graph ctx' = (local_graph ctx @ [fragment]) @ fragments"
      "length fragments = length entries"
      "\<forall>i < length entries. \<exists>d. node_attrs G (entries ! i) = Some d
                 \<and> local_fragment G (entries ! i) d = Inr (fragments ! i)"
    unfolding kept by blast
  have "\<forall>i < length (n # entries). \<exists>d. node_attrs G ((n # entries) ! i) = Some d
                 \<and> local_fragment G ((n # entries) ! i) d = Inr ((fragment # fragments) ! i)"
    using fs(3) attrs fragment by (auto simp: nth_Cons')
  moreover have "local_graph ctx' = local_graph ctx @ (fragment # fragments)"
    using fs(1) by simp
  moreover have "length (fragment # fragments) = length (n # entries)"
    using fs(2) by simp
  ultimately show ?case by blast
qed

lemma example_fragments:
  "local_fragment example_graph ''playlist'' example_playlist = Inr example_playlist_fragment
   \<and> local_fragment example_graph ''bug1'' example_bug1
       = Inr (entity_header example_bug1 @ ''\<newline>'' @ no_relationships)"
  by code_simp

lemma example_attrs:
  "node_attrs example_graph ''bug1'' = Some example_bug1
   \<and> node_attrs example_graph ''playlist'' = Some example_playlist"
  by code_simp

lemma example_successors:
  "''bug1'' \<in> successors example_graph ''playlist'' \<and> successors example_graph ''bug1'' = {}"
  by code_simp

section \<open>Local-context fragments\<close>

text \<open>
  Claim C2, as amended.  The fragment emitted for an entry point starts with
  the entity's value and type and contains the value-and-type line of every
  successor of the entity, that is of every target of an edge that leaves it;
  when no edge leaves the entity the fragment is the header followed by the
  "no relationships" placeholder.  The loop appends one fragment for every
  entry point, so no entity is omitted.  Sources of edges that enter the entity
  are not listed: the lookup follows edge direction.
\<close>

theorem local_fragment_lists_successors:
  assumes "local_fragment G n d = Inr fragment"
  shows "prefix (entity_header d) fragment
    \<and> (\<forall>t \<in> successors G n. \<exists>d'. node_attrs G t = Some d' \<and> sublist (neighbor_line d') fragment)
    \<and> (successors G n = {} \<longrightarrow> fragment = entity_header d @ ''\<newline>'' @ no_relationships)
    \<and> (augment_context G summaries reviews_dir entry_point_node_ids empty_context = Inr ctx \<longrightarrow>
         length (local_graph ctx) = length entry_point_node_ids
         \<and> (\<forall>i < length entry_point_node_ids.
               \<exists>d. node_attrs G (entry_point_node_ids ! i) = Some d
                 \<and> local_fragment G (entry_point_node_ids ! i) d = Inr (local_graph ctx ! i)))"
proof -
  from assms obtain neighbor_data
    where looked: "map_result (node_lookup G) (neighbors G n) = Inr neighbor_data"
      and shape: "fragment = entity_header d @ ''\<newline>''
           @ join ''\<newline>'' (if neighbor_data = [] then [no_relationships]
                               else map neighbor_line neighbor_data)"
    by (rule local_fragment_Inr)
  note each = map_result_Inr [OF looked]
  have a: "prefix (entity_header d) fragment"
    unfolding shape by simp
  have b: "\<forall>t \<in> successors G n. \<exists>d'. node_attrs G t = Some d' \<and> sublist (neighbor_line d') fragment"
  proof
    fix t
    assume "t \<in> successors G n"
    then have "t \<in> set (neighbors G n)"
      by (simp add: set_neighbors)
    then obtain i where i: "i < length (neighbors G n)" "neighbors G n ! i = t"
      by (auto simp: in_set_conv_nth)
    with each have found: "node_lookup G t = Inr (neighbor_data ! i)" and len: "i < length neighbor_data"
      by auto
    then have attrs: "node_attrs G t = Some (neighbor_data ! i)"
      by (auto simp: node_lookup_def split: option.splits)
    have "neighbor_line (neighbor_data ! i) \<in> set (map neighbor_line neighbor_data)"
      using len by simp
    then have "sublist (neighbor_line (neighbor_data ! i))
                 (join ''\<newline>'' (map neighbor_line neighbor_data))"
      by (rule sublist_join)
    then obtain p s where "join ''\<newline>'' (map neighbor_line neighbor_data)
        = p @ neighbor_line (neighbor_data ! i) @ s"
      unfolding sublist_def by blast
    moreover have "neighbor_data \<noteq> []"
      using len by auto
    ultimately have "fragment = (entity_header d @ ''\<newline>'' @ p) @ neighbor_line (neighbor_data ! i) @ s"
      unfolding shape by simp
    then have "sublist (neighbor_line (neighbor_data ! i)) fragment"
      unfolding sublist_def by blast
    with attrs show "\<exists>d'. node_attrs G t = Some d' \<and> sublist (neighbor_line d') fragment"
      by blast
  qed
  have c: "successors G n = {} \<longrightarrow> fragment = entity_header d @ ''\<newline>'' @ no_relationships"
  proof
    assume "successors G n = {}"
    then have "neighbors G n = []"
      using set_neighbors [of G n] by simp
    with looked have "neighbor_data = []"
      by simp
    then show "fragment = entity_header d @ ''\<newline>'' @ no_relationships"
      unfolding shape by simp
  qed
  have d: "augment_context G summaries reviews_dir entry_point_node_ids empty_context = Inr ctx \<longrightarrow>
         length (local_graph ctx) = length entry_point_node_ids
         \<and> (\<forall>i < length entry_point_node_ids.
               \<exists>d. node_attrs G (entry_point_node_ids ! i) = Some d
                 \<and> local_fragment G (entry_point_node_ids ! i) d = Inr (local_graph ctx ! i))"
  proof
    assume "augment_context G summaries reviews_dir entry_point_node_ids empty_context = Inr ctx"
    from augment_context_local [OF this]
    show "length (local_graph ctx) = length entry_point_node_ids
         \<and> (\<forall>i < length entry_point_node_ids.
               \<exists>d. node_attrs G (entry_point_node_ids ! i) = Some d
                 \<and> local_fragment G (entry_point_node_ids ! i) d = Inr (local_graph ctx ! i))"
      by (auto simp: empty_context_def)
  qed
  show ?thesis
    by (rule conjI [OF a conjI [OF b conjI [OF c d]]])
qed

theorem local_fragment_lists_successors_witness:
  "local_fragment example_graph ''playlist'' example_playlist = Inr example_playlist_fragment
   \<and> ''bug1'' \<in> successors example_graph ''playlist''
   \<and> sublist (neighbor_line example_bug1) example_playlist_fragment
   \<and> successors example_graph ''bug1'' = {}
   \<and> local_fragment example_graph ''bug1'' example_bug1
        = Inr (entity_header example_bug1 @ ''\<newline>'' @ no_relationships)
   \<and> length (local_graph example_context) = length example_entry_points"
proof -
  note first = local_fragment_lists_successors [OF example_fragments [THEN conjunct1],
      of "community_summaries_json example_index_files" example_reviews example_entry_points
         example_context]
  note second = local_fragment_lists_successors [OF example_fragments [THEN conjunct2],
      of "community_summaries_json example_index_files" example_reviews example_entry_points
         example_context]
  from first [THEN conjunct2, THEN conjunct1, rule_format, OF example_successors [THEN conjunct1]]
  obtain d' where "node_attrs example_graph ''bug1'' = Some d'"
    and "sublist (neighbor_line d') example_playlist_fragment"
    by blast
  with example_attrs have listed: "sublist (neighbor_line example_bug1) example_playlist_fragment"
    by simp
  have placeholder: "local_fragment example_graph ''bug1'' example_bug1
        = Inr (entity_header example_bug1 @ ''\<newline>'' @ no_relationships)"
    using second [THEN conjunct2, THEN conjunct2, THEN conjunct1, THEN mp,
        OF example_successors [THEN conjunct2]]
      example_fragments [THEN conjunct2] by simp
  have every: "length (local_graph example_context) = length example_entry_points"
    using first [THEN conjunct2, THEN conjunct2, THEN conjunct2, THEN mp, OF example_augment]
    by (rule conjunct1)
  show ?thesis
    by (rule conjI [OF example_fragments [THEN conjunct1] conjI [OF example_successors [THEN conjunct1]
          conjI [OF listed conjI [OF example_successors [THEN conjunct2] conjI [OF placeholder every]]]]])
qed

text \<open>
  The claim as written (every undirected neighbour is listed) fails on the
  example graph: its only edge goes from \<open>playlist\<close> to \<open>bug1\<close>, and the
  fragment of \<open>bug1\<close> is the placeholder, without the line of \<open>playlist\<close>.
\<close>

theorem undirected_neighbor_counterexample:
  "(''playlist'', ''bug1'', ''affected_by'') \<in> set (edges example_graph)
   \<and> node_attrs example_graph ''bug1'' = Some example_bug1
   \<and> node_attrs example_graph ''playlist'' = Some example_playlist
   \<and> local_fragment example_graph ''bug1'' example_bug1
        = Inr (entity_header example_bug1 @ ''\<newline>'' @ no_relationships)
   \<and> \<not> sublist (neighbor_line example_playlist)
          (entity_header example_bug1 @ ''\<newline>'' @ no_relationships)
   \<and> \<not> sublist ''Playlist'' (entity_header example_bug1 @ ''\<newline>'' @ no_relationships)"
  by code_simp

section \<open>Facts about entry points and the answer path\<close>

lemma map_result_append:
  "map_result f (xs @ ys) =
     (case map_result f xs of
        Inl e \<Rightarrow> Inl e
      | Inr as \<Rightarrow> (case map_result f ys of Inl e \<Rightarrow> Inl e | Inr bs \<Rightarrow> Inr (as @ bs)))"
  by (induction xs) (auto split: sum.splits)

lemma map_result_map: "(\<And>x. x \<in> set xs \<Longrightarrow> f x = Inr (g x)) \<Longrightarrow> map_result f xs = Inr (map g xs)"
  by (induction xs) auto

lemma map_result_replicate: "f x = Inr y \<Longrightarrow> map_result f (replicate k x) = Inr (replicate k y)"
  by (induction k) auto

lemma py_getitem_last: "xs \<noteq> [] \<Longrightarrow> py_getitem xs (- 1) = Inr (last xs)"
proof -
  assume nonempty: "xs \<noteq> []"
  then have len: "Suc 0 \<le> length xs"
    by (cases xs) simp_all
  then have "nat (int (length xs) + - 1) = length xs - 1"
    by linarith
  with nonempty len show ?thesis
    by (simp add: py_getitem_def last_conv_nth)
qed

lemma py_getitem_in_range:
  "0 \<le> i \<Longrightarrow> i < int (length xs) \<Longrightarrow> py_getitem xs i = Inr (xs ! nat i)"
  by (simp add: py_getitem_def)

lemma py_getitem_beyond: "py_getitem xs (int (length xs)) = Inl IndexError"
  by (simp add: py_getitem_def)

lemma assemble_context_nonempty: "assemble_context ctx \<noteq> []"
  by (simp add: assemble_context_def)

lemma example_ids:
  "faiss_node_ids_json example_index_files \<noteq> []
   \<and> list_all (\<lambda>h. 0 \<le> h \<and> h < int (length (faiss_node_ids_json example_index_files))) [1, 0, 2]"
  by code_simp

lemma example_search:
  "example_query_embedder example_query = Inr [17, 1]
   \<and> padding_searcher (entity_embeddings_faiss example_index_files) [17, 1] 5
       = [1, 0, 2] @ replicate 2 (- 1)"
  by code_simp

lemma example_padded_entries:
  "map (\<lambda>h. faiss_node_ids_json example_index_files ! nat h) [1, 0, 2]
     @ replicate 2 (last (faiss_node_ids_json example_index_files))
   = [''playlist'', ''bug1'', ''dark_mode'', ''dark_mode'', ''dark_mode'']"
  by code_simp

lemma failing_query_embedder_fails: "failing_query_embedder example_query = Inl ''quota exceeded''"
  by (simp add: failing_query_embedder_def)

lemma example_retrieval:
  "retrieve_and_build_context example_query_embedder padding_searcher example_query
     example_graph (entity_embeddings_faiss example_index_files)
     (faiss_node_ids_json example_index_files)
     (community_summaries_json example_index_files) example_reviews 5 = Inr example_context_text
   \<and> example_context_text \<noteq> []
   \<and> failing_llm (answer_prompt example_context_text example_query) = Inl ''rate limited''"
  by code_simp

section \<open>Padding positions of the search\<close>

text \<open>
  Claim C10.  Every position the search returns is used to index the id array
  with Python's list indexing, without a bounds or sentinel check.  For a
  non-empty id array (index construction never returns an empty one), a search
  result made of valid positions followed by padding positions \<open>-1\<close> maps to
  the ids at those positions followed by as many copies of the last id: each
  padding position selects the last element, nothing is skipped and nothing is
  raised, and the retrieval loop then runs over that list, the last entity
  repeated.  A position that is out of range in both directions raises
  \<open>IndexError\<close>.
\<close>

theorem padding_selects_last_id:
  assumes "faiss_node_ids \<noteq> []"
    and "\<forall>h \<in> set hits. 0 \<le> h \<and> h < int (length faiss_node_ids)"
  shows "py_getitem faiss_node_ids (- 1) = Inr (last faiss_node_ids)
    \<and> entry_points faiss_node_ids (hits @ replicate padding (- 1))
        = Inr (map (\<lambda>h. faiss_node_ids ! nat h) hits @ replicate padding (last faiss_node_ids))
    \<and> (embed_query query = Inr query_embedding
         \<and> search faiss_index query_embedding top_k = hits @ replicate padding (- 1) \<longrightarrow>
        retrieve_and_build_context embed_query search query G faiss_index faiss_node_ids summaries
            reviews_dir top_k
          = (case augment_context G summaries reviews_dir
                    (map (\<lambda>h. faiss_node_ids ! nat h) hits @ replicate padding (last faiss_node_ids))
                    empty_context of
               Inl e \<Rightarrow> Inl e
             | Inr ctx \<Rightarrow> Inr (assemble_context ctx)))
    \<and> entry_points faiss_node_ids [int (length faiss_node_ids)] = Inl IndexError"
proof -
  have a: "py_getitem faiss_node_ids (- 1) = Inr (last faiss_node_ids)"
    using assms(1) by (rule py_getitem_last)
  have hits: "map_result (py_getitem faiss_node_ids) hits = Inr (map (\<lambda>h. faiss_node_ids ! nat h) hits)"
    using assms(2) by (intro map_result_map py_getitem_in_range) auto
  have pads: "map_result (py_getitem faiss_node_ids) (replicate padding (- 1))
      = Inr (replicate padding (last faiss_node_ids))"
    using a by (rule map_result_replicate)
  have b: "entry_points faiss_node_ids (hits @ replicate padding (- 1))
        = Inr (map (\<lambda>h. faiss_node_ids ! nat h) hits @ replicate padding (last faiss_node_ids))"
    by (simp add: entry_points_def map_result_append hits pads)
  have c: "embed_query query = Inr query_embedding
         \<and> search faiss_index query_embedding top_k = hits @ replicate padding (- 1) \<longrightarrow>
        retrieve_and_build_context embed_query search query G faiss_index faiss_node_ids summaries
            reviews_dir top_k
          = (case augment_context G summaries reviews_dir
                    (map (\<lambda>h. faiss_node_ids ! nat h) hits @ replicate padding (last faiss_node_ids))
                    empty_context of
               Inl e \<Rightarrow> Inl e
             | Inr ctx \<Rightarrow> Inr (assemble_context ctx))"
    by (simp add: retrieve_and_build_context_def b)
  have d: "entry_points faiss_node_ids [int (length faiss_node_ids)] = Inl IndexError"
    by (simp add: entry_points_def py_getitem_beyond)
  show ?thesis
    by (rule conjI [OF a conjI [OF b conjI [OF c d]]])
qed

theorem padding_selects_last_id_witness:
  "faiss_node_ids_json example_index_files \<noteq> []
   \<and> padding_searcher (entity_embeddings_faiss example_index_files) [17, 1] 5
       = [1, 0, 2] @ replicate 2 (- 1)
   \<and> py_getitem (faiss_node_ids_json example_index_files) (- 1) = Inr ''dark_mode''
   \<and> entry_points (faiss_node_ids_json example_index_files) ([1, 0, 2] @ replicate 2 (- 1))
       = Inr [''playlist'', ''bug1'', ''dark_mode'', ''dark_mode'', ''dark_mode'']
   \<and> retrieve_and_build_context example_query_embedder padding_searcher example_query
         example_graph (entity_embeddings_faiss example_index_files)
         (faiss_node_ids_json example_index_files)
         (community_summaries_json example_index_files) example_reviews 5
       = (case augment_context example_graph (community_summaries_json example_index_files)
                 example_reviews [''playlist'', ''bug1'', ''dark_mode'', ''dark_mode'', ''dark_mode'']
                 empty_context of
            Inl e \<Rightarrow> Inl e
          | Inr ctx \<Rightarrow> Inr (assemble_context ctx))"
proof -
  have in_range: "\<forall>h \<in> set [1, 0, 2].
      0 \<le> h \<and> h < int (length (faiss_node_ids_json example_index_files))"
    using example_ids [THEN conjunct2] by (simp only: list_all_iff)
  note inst = padding_selects_last_id [OF example_ids [THEN conjunct1] in_range,
      of 2 example_query_embedder example_query "[17, 1]" padding_searcher
         "entity_embeddings_faiss example_index_files" 5 example_graph
         "community_summaries_json example_index_files" example_reviews,
      unfolded example_padded_entries]
  have last_id: "last (faiss_node_ids_json example_index_files) = ''dark_mode''"
    by code_simp
  have c1: "py_getitem (faiss_node_ids_json example_index_files) (- 1) = Inr ''dark_mode''"
    using inst [THEN conjunct1] by (simp only: last_id)
  note c2 = inst [THEN conjunct2, THEN conjunct1]
  note c3 = inst [THEN conjunct2, THEN conjunct2, THEN conjunct1, THEN mp, OF example_search]
  show ?thesis
    by (rule conjI [OF example_ids [THEN conjunct1] conjI [OF example_search [THEN conjunct2]
          conjI [OF c1 conjI [OF c2 c3]]]])
qed

section \<open>A search without hits\<close>

text \<open>
  Claim C1, as amended.  For every query in which the nearest-neighbour search
  yields no hit, so that every position it returns is the padding \<open>-1\<close>,
  \<^verbatim>\<open>retrieve_and_build_context\<close> does not return the empty string and
  \<^verbatim>\<open>answer_query_with_graph\<close> does not surface the "nothing relevant found"
  message.  With an empty id array the lookup of the first position raises
  \<open>IndexError\<close>, which escapes both functions before any call of the
  generation backend.  With a non-empty id array every position selects the
  last id, and the context is built from that entity.  The empty string is
  returned only when embedding the query fails.
\<close>

theorem search_without_hits:
  assumes "embed_query query = Inr query_embedding"
    and "search faiss_index query_embedding top_k = replicate top_k (- 1)"
    and "0 < top_k"
  shows "(faiss_node_ids = [] \<longrightarrow>
           retrieve_and_build_context embed_query search query G faiss_index faiss_node_ids
             summaries reviews_dir top_k = Inl IndexError)
    \<and> (faiss_node_ids \<noteq> [] \<longrightarrow>
           retrieve_and_build_context embed_query search query G faiss_index faiss_node_ids
             summaries reviews_dir top_k
           = (case augment_context G summaries reviews_dir
                     (replicate top_k (last faiss_node_ids)) empty_context of
                Inl e \<Rightarrow> Inl e
              | Inr ctx \<Rightarrow> Inr (assemble_context ctx)))
    \<and> retrieve_and_build_context embed_query search query G faiss_index faiss_node_ids
           summaries reviews_dir top_k \<noteq> Inr []
    \<and> (search (entity_embeddings_faiss files) query_embedding 5 = replicate 5 (- 1) \<longrightarrow>
          (faiss_node_ids_json files = [] \<longrightarrow>
             answer_query_with_graph embed_query search generation_model query (saved files)
               reviews_dir = Inl IndexError)
          \<and> answer_query_with_graph embed_query search generation_model query (saved files)
               reviews_dir \<noteq> Inr (nothing_found_message, []))
    \<and> (retrieve_and_build_context embed_query' search query G faiss_index faiss_node_ids
           summaries reviews_dir top_k = Inr [] \<longrightarrow> isl (embed_query' query))"
proof -
  have raises: "retrieve_and_build_context embed_query search query H index [] S reviews_dir k
        = Inl IndexError"
    if "search index query_embedding k = replicate k (- 1)" and "0 < k" for H index S k
  proof -
    from that(2) obtain k' where "k = Suc k'"
      by (cases k) auto
    then have "entry_points [] (replicate k (- 1)) = Inl IndexError"
      by (simp add: entry_points_def py_getitem_def)
    with assms(1) that(1) show ?thesis
      by (simp add: retrieve_and_build_context_def)
  qed
  have selects: "retrieve_and_build_context embed_query search query H index ids S reviews_dir k
        = (case augment_context H S reviews_dir (replicate k (last ids)) empty_context of
             Inl e \<Rightarrow> Inl e
           | Inr ctx \<Rightarrow> Inr (assemble_context ctx))"
    if "search index query_embedding k = replicate k (- 1)" and "ids \<noteq> []" for H index ids S k
  proof -
    have "entry_points ids (replicate k (- 1)) = Inr (replicate k (last ids))"
      unfolding entry_points_def
      by (rule map_result_replicate) (rule py_getitem_last [OF that(2)])
    with assms(1) that(1) show ?thesis
      by (simp add: retrieve_and_build_context_def)
  qed
  have never_empty: "retrieve_and_build_context embed_query search query H index ids S reviews_dir k
        \<noteq> Inr []"
    if "search index query_embedding k = replicate k (- 1)" and "0 < k" for H index ids S k
  proof (cases "ids = []")
    case True
    with raises [OF that] show ?thesis by simp
  next
    case False
    from selects [OF that(1) False] show ?thesis
      by (auto simp: assemble_context_nonempty split: sum.splits)
  qed
  have a: "faiss_node_ids = [] \<longrightarrow>
           retrieve_and_build_context embed_query search query G faiss_index faiss_node_ids
             summaries reviews_dir top_k = Inl IndexError"
    using raises [OF assms(2,3)] by simp
  have b: "faiss_node_ids \<noteq> [] \<longrightarrow>
           retrieve_and_build_context embed_query search query G faiss_index faiss_node_ids
             summaries reviews_dir top_k
           = (case augment_context G summaries reviews_dir
                     (replicate top_k (last faiss_node_ids)) empty_context of
                Inl e \<Rightarrow> Inl e
              | Inr ctx \<Rightarrow> Inr (assemble_context ctx))"
    using selects [OF assms(2)] by simp
  have c: "retrieve_and_build_context embed_query search query G faiss_index faiss_node_ids
           summaries reviews_dir top_k \<noteq> Inr []"
    by (rule never_empty [OF assms(2,3)])
  have d: "search (entity_embeddings_faiss files) query_embedding 5 = replicate 5 (- 1) \<longrightarrow>
          (faiss_node_ids_json files = [] \<longrightarrow>
             answer_query_with_graph embed_query search generation_model query (saved files)
               reviews_dir = Inl IndexError)
          \<and> answer_query_with_graph embed_query search generation_model query (saved files)
               reviews_dir \<noteq> Inr (nothing_found_message, [])"
  proof
    assume none: "search (entity_embeddings_faiss files) query_embedding 5 = replicate 5 (- 1)"
    have five: "(0::nat) < 5" by simp
    have "answer_query_with_graph embed_query search generation_model query (saved files)
               reviews_dir = Inl IndexError" if "faiss_node_ids_json files = []"
      using raises [OF none five, of "graph_pkl files" "community_summaries_json files"] that
      by (simp add: answer_query_with_graph_def saved_def)
    moreover have "answer_query_with_graph embed_query search generation_model query (saved files)
               reviews_dir \<noteq> Inr (nothing_found_message, [])"
      using never_empty [OF none five, of "graph_pkl files" "faiss_node_ids_json files"
          "community_summaries_json files"]
      by (auto simp: answer_query_with_graph_def saved_def Let_def split: sum.splits)
    ultimately show "(faiss_node_ids_json files = [] \<longrightarrow>
             answer_query_with_graph embed_query search generation_model query (saved files)
               reviews_dir = Inl IndexError)
          \<and> answer_query_with_graph embed_query search generation_model query (saved files)
               reviews_dir \<noteq> Inr (nothing_found_message, [])"
      by blast
  qed
  have e: "retrieve_and_build_context embed_query' search query G faiss_index faiss_node_ids
           summaries reviews_dir top_k = Inr [] \<longrightarrow> isl (embed_query' query)"
    by (auto simp: retrieve_and_build_context_def assemble_context_nonempty split: sum.splits)
  show ?thesis
    by (rule conjI [OF a conjI [OF b conjI [OF c conjI [OF d e]]]])
qed

theorem search_without_hits_witness:
  "example_query_embedder example_query = Inr [17, 1]
   \<and> flat_searcher (entity_embeddings_faiss empty_index_files) [17, 1] 5 = replicate 5 (- 1)
   \<and> faiss_node_ids_json empty_index_files = []
   \<and> retrieve_and_build_context example_query_embedder flat_searcher example_query
         (graph_pkl empty_index_files) (entity_embeddings_faiss empty_index_files)
         (faiss_node_ids_json empty_index_files) (community_summaries_json empty_index_files)
         example_reviews 5 = Inl IndexError
   \<and> answer_query_with_graph example_query_embedder flat_searcher example_llm example_query
         (saved empty_index_files) example_reviews = Inl IndexError
   \<and> answer_query_with_graph example_query_embedder flat_searcher example_llm example_query
         (saved empty_index_files) example_reviews \<noteq> Inr (nothing_found_message, [])
   \<and> retrieve_and_build_context example_query_embedder flat_searcher example_query
         example_graph (entity_embeddings_faiss empty_index_files)
         (faiss_node_ids_json example_index_files) (community_summaries_json example_index_files)
         example_reviews 5
       = (case augment_context example_graph (community_summaries_json example_index_files)
                 example_reviews (replicate 5 (last (faiss_node_ids_json example_index_files)))
                 empty_context of
            Inl e \<Rightarrow> Inl e
          | Inr ctx \<Rightarrow> Inr (assemble_context ctx))
   \<and> isl (failing_query_embedder example_query)"
proof -
  have embedded: "example_query_embedder example_query = Inr [17, 1]"
    by code_simp
  have no_hit: "flat_searcher (entity_embeddings_faiss empty_index_files) [17, 1] 5 = replicate 5 (- 1)"
    by code_simp
  have five: "(0::nat) < 5"
    by simp
  have no_ids: "faiss_node_ids_json empty_index_files = []"
    by code_simp
  have ids: "faiss_node_ids_json example_index_files \<noteq> []"
    by code_simp
  note empty = search_without_hits [where embed_query = example_query_embedder
        and query = example_query and query_embedding = "[17, 1]" and search = flat_searcher
        and faiss_index = "entity_embeddings_faiss empty_index_files" and top_k = 5
        and faiss_node_ids = "faiss_node_ids_json empty_index_files"
        and G = "graph_pkl empty_index_files"
        and summaries = "community_summaries_json empty_index_files"
        and reviews_dir = example_reviews and files = empty_index_files
        and generation_model = example_llm and embed_query' = failing_query_embedder,
      OF embedded no_hit five]
  note mismatched = search_without_hits [where embed_query = example_query_embedder
        and query = example_query and query_embedding = "[17, 1]" and search = flat_searcher
        and faiss_index = "entity_embeddings_faiss empty_index_files" and top_k = 5
        and faiss_node_ids = "faiss_node_ids_json example_index_files"
        and G = example_graph
        and summaries = "community_summaries_json example_index_files"
        and reviews_dir = example_reviews and files = empty_index_files
        and generation_model = example_llm and embed_query' = failing_query_embedder,
      OF embedded no_hit five]
  note c1 = empty [THEN conjunct1, THEN mp, OF no_ids]
  note answered = empty [THEN conjunct2, THEN conjunct2, THEN conjunct2, THEN conjunct1,
      THEN mp, OF no_hit]
  note c2 = answered [THEN conjunct1, THEN mp, OF no_ids]
  note c3 = answered [THEN conjunct2]
  note c4 = mismatched [THEN conjunct2, THEN conjunct1, THEN mp, OF ids]
  have failed: "retrieve_and_build_context failing_query_embedder flat_searcher example_query
         (graph_pkl empty_index_files) (entity_embeddings_faiss empty_index_files)
         (faiss_node_ids_json empty_index_files) (community_summaries_json empty_index_files)
         example_reviews 5 = Inr []"
    by code_simp
  note c5 = empty [THEN conjunct2, THEN conjunct2, THEN conjunct2, THEN conjunct2, THEN mp, OF failed]
  show ?thesis
    by (rule conjI [OF embedded conjI [OF no_hit conjI [OF no_ids conjI [OF c1 conjI [OF c2
          conjI [OF c3 conjI [OF c4 c5]]]]]]])
qed

text \<open>
  The claim as written (a search without entry points gives the empty string
  and the "nothing relevant found" message) fails on an index without rows,
  with its empty id array: the search returns five padding positions, the
  lookup of the first raises \<open>IndexError\<close>, and the exception escapes
  \<^verbatim>\<open>retrieve_and_build_context\<close> and \<^verbatim>\<open>answer_query_with_graph\<close>.
\<close>

theorem search_without_hits_counterexample:
  "example_query_embedder example_query = Inr [17, 1]
   \<and> flat_searcher (entity_embeddings_faiss empty_index_files) [17, 1] 5 = [- 1, - 1, - 1, - 1, - 1]
   \<and> entry_points (faiss_node_ids_json empty_index_files) [- 1, - 1, - 1, - 1, - 1] = Inl IndexError
   \<and> retrieve_and_build_context example_query_embedder flat_searcher example_query
         (graph_pkl empty_index_files) (entity_embeddings_faiss empty_index_files)
         (faiss_node_ids_json empty_index_files) (community_summaries_json empty_index_files)
         example_reviews 5 = Inl IndexError
   \<and> retrieve_and_build_context example_query_embedder flat_searcher example_query
         (graph_pkl empty_index_files) (entity_embeddings_faiss empty_index_files)
         (faiss_node_ids_json empty_index_files) (community_summaries_json empty_index_files)
         example_reviews 5 \<noteq> Inr []
   \<and> answer_query_with_graph example_query_embedder flat_searcher example_llm example_query
         (saved empty_index_files) example_reviews = Inl IndexError
   \<and> answer_query_with_graph example_query_embedder flat_searcher example_llm example_query
         (saved empty_index_files) example_reviews \<noteq> Inr (nothing_found_message, [])"
  by code_simp

section \<open>Query embedding failure\<close>

text \<open>
  Claim C9, as amended.  If embedding the query fails, the answer path returns
  the fixed "nothing relevant found" message, whatever the error was, without
  raising and without a call of the generation backend.  An answer that
  describes the error is returned on the other per-query failure only: when
  the generation backend raises, the answer is the generation error message
  with the error's text.
\<close>

theorem embedding_failure_answer_is_not_found_message:
  assumes "embed_query query = Inl e"
  shows "answer_query_with_graph embed_query search generation_model query (saved files) reviews_dir
        = Inr (nothing_found_message, [])
    \<and> (retrieve_and_build_context embed_query' search query (graph_pkl files)
            (entity_embeddings_faiss files) (faiss_node_ids_json files)
            (community_summaries_json files) reviews_dir 5 = Inr context_text
         \<and> context_text \<noteq> []
         \<and> generation_model (answer_prompt context_text query) = Inl e' \<longrightarrow>
        answer_query_with_graph embed_query' search generation_model query (saved files) reviews_dir
          = Inr (generation_error_message e', [answer_prompt context_text query]))"
  using assms by (simp add: retrieve_and_build_context_def answer_query_with_graph_def saved_def)

theorem embedding_failure_answer_is_not_found_message_witness:
  "failing_query_embedder example_query = Inl ''quota exceeded''
   \<and> answer_query_with_graph failing_query_embedder padding_searcher failing_llm example_query
         (saved example_index_files) example_reviews = Inr (nothing_found_message, [])
   \<and> failing_llm (answer_prompt example_context_text example_query) = Inl ''rate limited''
   \<and> answer_query_with_graph example_query_embedder padding_searcher failing_llm example_query
         (saved example_index_files) example_reviews
       = Inr (generation_error_message ''rate limited'',
              [answer_prompt example_context_text example_query])"
proof -
  note inst = embedding_failure_answer_is_not_found_message
     [of failing_query_embedder example_query "''quota exceeded''"
         padding_searcher failing_llm example_index_files example_reviews example_query_embedder
         example_context_text "''rate limited''",
      OF failing_query_embedder_fails]
  have graph: "graph_pkl example_index_files = example_graph"
    by (simp add: example_index_files_def)
  note generated = inst [THEN conjunct2, unfolded graph, THEN mp, OF example_retrieval]
  show ?thesis
    by (rule conjI [OF failing_query_embedder_fails conjI [OF inst [THEN conjunct1]
          conjI [OF example_retrieval [THEN conjunct2, THEN conjunct2] generated]]])
qed

text \<open>
  The claim as written (an error-described answer) fails: for the embedding
  error \<open>quota exceeded\<close> the answer is the "nothing relevant found" message,
  which neither contains the error's text nor has the form of the generation
  error message.
\<close>

theorem embedding_failure_not_described_counterexample:
  "failing_query_embedder example_query = Inl ''quota exceeded''
   \<and> answer_query_with_graph failing_query_embedder padding_searcher example_llm example_query
         (saved example_index_files) example_reviews = Inr (nothing_found_message, [])
   \<and> \<not> sublist ''quota exceeded'' nothing_found_message
   \<and> nothing_found_message \<noteq> generation_error_message ''quota exceeded''"
  by code_simp

end
